theory Spec2Isabelle
  imports Complex_Main "HOL-Library.Sublist" "HOL-Library.Product_Lexorder"
begin

section \<open>Retry with exponential backoff and jitter (utils/retry.ts)\<close>

subsection \<open>Errors and thrown values\<close>

text \<open>
  A JavaScript \<open>throw\<close> carries any value. \<open>withRetry\<close> keeps an \<open>Error\<close> instance as
  it is and wraps everything else: \<open>error instanceof Error ? error : new Error(String(error))\<close>.
  An \<open>Error\<close> instance raised by the caller's code is \<open>ErrorObj i m\<close> (object identity
  \<open>i\<close>, message \<open>m\<close>); an \<open>Error\<close> created inside \<open>withRetry\<close> is \<open>Synthetic m\<close>.
\<close>

datatype error = ErrorObj nat string | Synthetic string

fun message :: "error \<Rightarrow> string" where
  "message (ErrorObj i m) = m"
| "message (Synthetic m) = m"

datatype thrown = Err error | NonError string

fun toError :: "thrown \<Rightarrow> error" where
  "toError (Err e) = e"
| "toError (NonError s) = Synthetic s"

text \<open>\<open>String.prototype.includes\<close>: the pattern occurs as a contiguous run.\<close>

fun str_includes :: "string \<Rightarrow> string \<Rightarrow> bool" where
  "str_includes [] pat = (pat = [])"
| "str_includes (c # cs) pat = (prefix pat (c # cs) \<or> str_includes cs pat)"

subsection \<open>Options\<close>

text \<open>
  The options as the caller passes them (every field may be absent) and as \<open>withRetry\<close>
  resolves them with \<open>??\<close>. \<open>onRetry\<close> returns \<open>Some t\<close> when the callback throws \<open>t\<close>.
\<close>

record RetryOptionsWithCallback =
  given_maxAttempts :: "int option"
  given_initialDelay :: "real option"
  given_maxDelay :: "real option"
  given_backoffMultiplier :: "real option"
  given_jitter :: "bool option"
  given_retryCondition :: "(error \<Rightarrow> bool) option"
  given_onRetry :: "(int \<Rightarrow> error \<Rightarrow> thrown option) option"

record opts =
  maxAttempts :: int
  initialDelay :: real
  maxDelay :: real
  backoffMultiplier :: real
  jitter :: bool
  retryCondition :: "error \<Rightarrow> bool"
  onRetry :: "int \<Rightarrow> error \<Rightarrow> thrown option"

definition orElse :: "'a option \<Rightarrow> 'a \<Rightarrow> 'a" where
  "orElse x d = (case x of Some v \<Rightarrow> v | None \<Rightarrow> d)"

definition resolve :: "RetryOptionsWithCallback \<Rightarrow> opts" where
  "resolve options =
     \<lparr> maxAttempts = orElse (given_maxAttempts options) 3,
       initialDelay = orElse (given_initialDelay options) 1000,
       maxDelay = orElse (given_maxDelay options) 10000,
       backoffMultiplier = orElse (given_backoffMultiplier options) 2,
       jitter = orElse (given_jitter options) True,
       retryCondition = orElse (given_retryCondition options) (\<lambda>e. True),
       onRetry = orElse (given_onRetry options) (\<lambda>attempt e. None) \<rparr>"

subsection \<open>Delay\<close>

text \<open>
  Numbers are modelled as reals. \<open>rnd\<close> is the value \<open>Math.random()\<close> returns, a number
  in \<open>[0, 1)\<close>.
\<close>

definition addJitter :: "real \<Rightarrow> real \<Rightarrow> real" where
  "addJitter delay rnd = (let jit = delay * 0.1 in delay + (rnd - 0.5) * 2 * jit)"

definition calculateDelay :: "int \<Rightarrow> opts \<Rightarrow> real \<Rightarrow> real" where
  "calculateDelay attempt options rnd =
     (let delay = initialDelay options * power_int (backoffMultiplier options) (attempt - 1);
          delay = min delay (maxDelay options)
      in if jitter options then addJitter delay rnd else delay)"

subsection \<open>Classification\<close>

definition isRetriableError :: "error \<Rightarrow> (error \<Rightarrow> bool) option \<Rightarrow> bool" where
  "isRetriableError err cond =
     (if str_includes (message err) ''ECONNRESET'' \<or>
         str_includes (message err) ''ETIMEDOUT'' \<or>
         str_includes (message err) ''ENOTFOUND'' \<or>
         str_includes (message err) ''EAI_AGAIN'' then True
      else if str_includes (message err) ''5'' then True
      else if str_includes (message err) ''429'' then True
      else (case cond of Some c \<Rightarrow> c err | None \<Rightarrow> False))"

subsection \<open>The retry loop\<close>

text \<open>
  \<open>fn k\<close> is what the \<open>k\<close>-th invocation of the operation does: it throws (\<open>Inl\<close>) or
  returns (\<open>Inr\<close>). \<open>rnd k\<close> is the random number drawn while handling attempt \<open>k\<close>.
  The outcome records what \<open>withRetry\<close> itself does: its result, how often it called the
  operation, the \<open>onRetry\<close> calls it made and the delays it slept, in order.
\<close>

record 'a outcome =
  result :: "thrown + 'a"
  invocations :: nat
  onRetryCalls :: "(int \<times> error) list"
  sleeps :: "real list"

definition settle :: "thrown + 'a \<Rightarrow> 'a outcome" where
  "settle r = \<lparr> result = r, invocations = 1, onRetryCalls = [], sleeps = [] \<rparr>"

definition retried :: "int \<Rightarrow> error \<Rightarrow> real \<Rightarrow> 'a outcome \<Rightarrow> 'a outcome" where
  "retried attempt err delay out =
     out \<lparr> invocations := Suc (invocations out),
           onRetryCalls := (attempt, err) # onRetryCalls out,
           sleeps := delay # sleeps out \<rparr>"

function retryLoop ::
  "(nat \<Rightarrow> thrown + 'a) \<Rightarrow> opts \<Rightarrow> (int \<Rightarrow> real) \<Rightarrow> int \<Rightarrow> error option \<Rightarrow> 'a outcome" where
  "retryLoop fn options rnd attempt lastError =
     (if attempt \<le> maxAttempts options then
        (case fn (nat attempt) of
           Inr v \<Rightarrow> settle (Inr v)
         | Inl t \<Rightarrow>
             (if attempt \<ge> maxAttempts options then settle (Inl (Err (toError t)))
              else if \<not> isRetriableError (toError t) (Some (retryCondition options))
                then settle (Inl (Err (toError t)))
              else
                (case onRetry options attempt (toError t) of
                   Some t' \<Rightarrow>
                     \<lparr> result = Inl t', invocations = 1,
                       onRetryCalls = [(attempt, toError t)], sleeps = [] \<rparr>
                 | None \<Rightarrow>
                     retried attempt (toError t)
                       (calculateDelay attempt options (rnd attempt))
                       (retryLoop fn options rnd (attempt + 1) (Some (toError t))))))
      else
        \<lparr> result = Inl (Err (orElse lastError (Synthetic ''Retry failed with unknown error''))),
          invocations = 0, onRetryCalls = [], sleeps = [] \<rparr>)"
  by pat_completeness auto
termination
  by (relation "measure (\<lambda>(fn, options, rnd, attempt, lastError).
        nat (maxAttempts options + 1 - attempt))") auto

declare retryLoop.simps [simp del]

definition withRetry ::
  "(nat \<Rightarrow> thrown + 'a) \<Rightarrow> RetryOptionsWithCallback \<Rightarrow> (int \<Rightarrow> real) \<Rightarrow> 'a outcome" where
  "withRetry fn options rnd = retryLoop fn (resolve options) rnd 1 None"

subsection \<open>Vocabulary of the properties\<close>

text \<open>
  \<open>callOf fn c k\<close>: the \<open>onRetry\<close> call \<open>c\<close> reports attempt \<open>k\<close> and the error that
  the \<open>k\<close>-th invocation raised.
\<close>

definition callOf :: "(nat \<Rightarrow> thrown + 'a) \<Rightarrow> int \<times> error \<Rightarrow> int \<Rightarrow> bool" where
  "callOf fn c k = (case fn (nat k) of Inl t \<Rightarrow> c = (k, toError t) | Inr v \<Rightarrow> False)"

text \<open>A status code from 500 to 599, as text.\<close>

fun http5xx :: "string \<Rightarrow> bool" where
  "http5xx [c, d1, d2] = (c = CHR ''5'' \<and> d1 \<in> set ''0123456789'' \<and> d2 \<in> set ''0123456789'')"
| "http5xx code = False"

subsection \<open>Example operations and policies\<close>

definition noOptions :: RetryOptionsWithCallback where
  "noOptions = \<lparr> given_maxAttempts = None, given_initialDelay = None, given_maxDelay = None,
     given_backoffMultiplier = None, given_jitter = None, given_retryCondition = None,
     given_onRetry = None \<rparr>"

definition noRandom :: "int \<Rightarrow> real" where
  "noRandom k = 0"

definition invalidKey :: "nat \<Rightarrow> thrown + unit" where
  "invalidKey k = Inl (Err (ErrorObj k ''Invalid API key''))"

definition connectionReset :: "nat \<Rightarrow> thrown + unit" where
  "connectionReset k = Inl (Err (ErrorObj k ''read ECONNRESET''))"

definition neverRetry :: "error \<Rightarrow> bool" where
  "neverRetry e = False"

text \<open>An operation whose first failure is a connection reset and whose later ones are fatal.\<close>

definition resetThenInvalidKey :: "nat \<Rightarrow> thrown + unit" where
  "resetThenInvalidKey k =
     (if k = 1 then Inl (Err (ErrorObj k ''read ECONNRESET''))
      else Inl (Err (ErrorObj k ''Invalid API key'')))"

definition neverRetryOptions :: RetryOptionsWithCallback where
  "neverRetryOptions = noOptions \<lparr> given_retryCondition := Some neverRetry \<rparr>"

definition unavailable :: error where
  "unavailable = ErrorObj 7 ''API error 503: Service Unavailable''"

definition serverError :: "nat \<Rightarrow> thrown + unit" where
  "serverError k = Inl (Err (ErrorObj k ''API error 503: Service Unavailable''))"

definition threeAttempts :: RetryOptionsWithCallback where
  "threeAttempts = noOptions \<lparr> given_maxAttempts := Some 3 \<rparr>"


definition throwingCallback :: "int \<Rightarrow> error \<Rightarrow> thrown option" where
  "throwingCallback attempt e = Some (Err (ErrorObj 99 ''metrics sink closed''))"

definition throwingOptions :: RetryOptionsWithCallback where
  "throwingOptions = threeAttempts \<lparr> given_onRetry := Some throwingCallback \<rparr>"



section \<open>Memory store (memory/store.ts)\<close>

subsection \<open>Tables\<close>

text \<open>
  The four tables of \<open>initializeSchema\<close>, each a list of rows in insertion order.
  Column \<open>id\<close> is the primary key of every table; \<open>messages.session_id\<close> and
  \<open>tool_calls.session_id\<close> reference \<open>sessions.id\<close>, and foreign keys are enforced
  (\<open>PRAGMA foreign_keys = ON\<close>). The schema of \<open>initializeSchema\<close> creates tables and
  indexes only: it has no trigger. \<open>memories\<close> is an ordinary rowid table, and the
  capacity pass of the sweep addresses its rows by \<open>rowid\<close>.
\<close>

record SessionRow =
  s_id :: string
  s_user_id :: string
  s_created_at :: int
  s_updated_at :: int
  s_metadata :: "string option"

datatype role = System | User | Assistant | Tool

record MessageRow =
  m_id :: string
  m_session_id :: string
  m_role :: role
  m_content :: string
  m_tool_call_id :: "string option"
  m_tool_name :: "string option"
  m_timestamp :: int
  m_tokens :: "int option"

record MemoryRow =
  rowid :: nat
  mem_id :: string
  session_id :: "string option"
  user_id :: "string option"
  content :: string
  importance :: real
  access_count :: int
  created_at :: int
  accessed_at :: int
  tags :: "string list option"

text \<open>The result of a tool (\<open>ToolCallResult\<close>); \<open>data\<close> is held as its JSON text.\<close>

record ToolCallResult =
  success :: bool
  data :: "string option"
  error :: "string option"

record ToolCallRecord =
  tc_id :: string
  tc_sessionId :: string
  tc_messageId :: "string option"
  tc_toolName :: string
  tc_parameters :: string
  tc_result :: "ToolCallResult option"
  tc_success :: bool
  tc_durationMs :: "int option"
  tc_timestamp :: int

record MemoryExpiryConfig =
  enabled :: bool
  maxMemoriesPerUser :: int
  maxAgeDays :: int
  minImportance :: real
  cleanupOnStartup :: bool

record store =
  sessions :: "SessionRow list"
  messages :: "MessageRow list"
  memories :: "MemoryRow list"
  tool_calls :: "ToolCallRecord list"
  expiryConfig :: MemoryExpiryConfig

text \<open>What \<open>better-sqlite3\<close> throws when a statement violates a constraint.\<close>

definition sqliteError :: "string \<Rightarrow> thrown" where
  "sqliteError code = Err (Synthetic code)"

text \<open>JavaScript's \<open>x || d\<close> on an optional string: absent and empty both give \<open>d\<close>.\<close>

definition strOr :: "string option \<Rightarrow> string \<Rightarrow> string" where
  "strOr x d = (case x of None \<Rightarrow> d | Some s \<Rightarrow> if s = [] then d else s)"

definition strOrNull :: "string option \<Rightarrow> string option" where
  "strOrNull x = (case x of None \<Rightarrow> None | Some s \<Rightarrow> if s = [] then None else Some s)"

definition intOr :: "int option \<Rightarrow> int \<Rightarrow> int" where
  "intOr x d = (case x of None \<Rightarrow> d | Some n \<Rightarrow> if n = 0 then d else n)"

text \<open>\<open>LIMIT n\<close>: a negative \<open>n\<close> means no limit.\<close>

definition limit :: "int \<Rightarrow> 'a list \<Rightarrow> 'a list" where
  "limit n xs = (if n < 0 then xs else take (nat n) xs)"

subsection \<open>Sessions and messages\<close>

definition createSession :: "store \<Rightarrow> string \<Rightarrow> string \<Rightarrow> string option \<Rightarrow> int \<Rightarrow> thrown + store" where
  "createSession st sessionId userId metadata nowMs =
     (let now = nowMs div 1000 in
      if sessionId \<in> set (map s_id (sessions st))
      then Inl (sqliteError ''SQLITE_CONSTRAINT_PRIMARYKEY'')
      else Inr (st \<lparr> sessions := sessions st @
             [\<lparr> s_id = sessionId, s_user_id = userId, s_created_at = now,
                s_updated_at = now, s_metadata = metadata \<rparr>] \<rparr>))"

definition getSession :: "store \<Rightarrow> string \<Rightarrow> SessionRow option" where
  "getSession st sessionId = find (\<lambda>s. s_id s = sessionId) (sessions st)"

definition sessionExists :: "store \<Rightarrow> string \<Rightarrow> bool" where
  "sessionExists st sessionId = (getSession st sessionId \<noteq> None)"

text \<open>The message as the caller builds it (\<open>Message\<close> of utils/types.ts).\<close>

record Message =
  msg_id :: "string option"
  msg_role :: role
  msg_content :: string
  msg_timestamp :: "int option"
  msg_toolCallId :: "string option"
  msg_toolName :: "string option"

text \<open>
  \<open>addMessage\<close> runs the single prepared \<open>INSERT INTO messages\<close>. \<open>freshId\<close> is what
  \<open>generateId()\<close> returns and \<open>nowMs\<close> what \<open>Date.now()\<close> returns.
\<close>

definition addMessage :: "store \<Rightarrow> Message \<Rightarrow> string \<Rightarrow> string \<Rightarrow> int \<Rightarrow> thrown + store" where
  "addMessage st msg sessionId freshId nowMs =
     (let row = \<lparr> m_id = strOr (msg_id msg) freshId,
                   m_session_id = sessionId,
                   m_role = msg_role msg,
                   m_content = msg_content msg,
                   m_tool_call_id = strOrNull (msg_toolCallId msg),
                   m_tool_name = strOrNull (msg_toolName msg),
                   m_timestamp = intOr (msg_timestamp msg) (nowMs div 1000),
                   m_tokens = None \<rparr>
      in if m_id row \<in> set (map m_id (messages st))
         then Inl (sqliteError ''SQLITE_CONSTRAINT_PRIMARYKEY'')
         else if sessionId \<notin> set (map s_id (sessions st))
         then Inl (sqliteError ''SQLITE_CONSTRAINT_FOREIGNKEY'')
         else Inr (st \<lparr> messages := messages st @ [row] \<rparr>))"

definition addToolCall :: "store \<Rightarrow> ToolCallRecord \<Rightarrow> thrown + store" where
  "addToolCall st call =
     (if tc_id call \<in> set (map tc_id (tool_calls st))
      then Inl (sqliteError ''SQLITE_CONSTRAINT_PRIMARYKEY'')
      else if tc_sessionId call \<notin> set (map s_id (sessions st))
      then Inl (sqliteError ''SQLITE_CONSTRAINT_FOREIGNKEY'')
      else Inr (st \<lparr> tool_calls := tool_calls st @ [call] \<rparr>))"

subsection \<open>Memories\<close>

text \<open>The record handed to callers (\<open>mapMemoryRow\<close>).\<close>

record MemoryRecord =
  r_id :: string
  r_sessionId :: "string option"
  r_content :: string
  r_importance :: real
  r_accessCount :: int
  r_tags :: "string list option"
  r_createdAt :: int
  r_accessedAt :: int

definition mapMemoryRow :: "MemoryRow \<Rightarrow> MemoryRecord" where
  "mapMemoryRow row =
     \<lparr> r_id = mem_id row, r_sessionId = strOrNull (session_id row), r_content = content row,
       r_importance = importance row, r_accessCount = access_count row, r_tags = tags row,
       r_createdAt = created_at row, r_accessedAt = accessed_at row \<rparr>"

text \<open>A new row gets the rowid after the largest one in the table.\<close>

definition nextRowid :: "MemoryRow list \<Rightarrow> nat" where
  "nextRowid rows = Suc (fold max (map rowid rows) 0)"

definition addMemory ::
  "store \<Rightarrow> string \<Rightarrow> string option \<Rightarrow> real \<Rightarrow> string list option \<Rightarrow> string option \<Rightarrow>
     string \<Rightarrow> int \<Rightarrow> thrown + (string \<times> store)" where
  "addMemory st text sessionId imp tagList userId freshId nowMs =
     (let now = nowMs div 1000 in
      if freshId \<in> set (map mem_id (memories st))
      then Inl (sqliteError ''SQLITE_CONSTRAINT_PRIMARYKEY'')
      else Inr (freshId, st \<lparr> memories := memories st @
             [\<lparr> rowid = nextRowid (memories st), mem_id = freshId,
                session_id = strOrNull sessionId, user_id = strOrNull userId,
                content = text, importance = imp, access_count = 0,
                created_at = now, accessed_at = now, tags = tagList \<rparr>] \<rparr>))"

text \<open>\<open>UPDATE memories SET access_count = access_count + 1, accessed_at = ? WHERE id = ?\<close>\<close>

definition updateMemoryAccess :: "int \<Rightarrow> string \<Rightarrow> MemoryRow list \<Rightarrow> MemoryRow list" where
  "updateMemoryAccess now ident rows =
     map (\<lambda>r. if mem_id r = ident
               then r \<lparr> access_count := access_count r + 1, accessed_at := now \<rparr> else r) rows"

text \<open>A row after one counted access at time \<open>now\<close>.\<close>

definition accessed :: "int \<Rightarrow> MemoryRow \<Rightarrow> MemoryRow" where
  "accessed now r = r \<lparr> access_count := access_count r + 1, accessed_at := now \<rparr>"

text \<open>
  \<open>ORDER BY importance DESC, accessed_at DESC\<close> and \<open>ORDER BY importance ASC,
  accessed_at ASC\<close>. SQL leaves the order of rows with equal keys to the engine; the
  model sorts stably, so such rows keep their table order.
\<close>

definition orderDesc :: "MemoryRow list \<Rightarrow> MemoryRow list" where
  "orderDesc rows = sort_key (\<lambda>r. (- importance r, - accessed_at r)) rows"

definition orderAsc :: "MemoryRow list \<Rightarrow> MemoryRow list" where
  "orderAsc rows = sort_key (\<lambda>r. (importance r, accessed_at r)) rows"

definition getMemoriesByUser :: "store \<Rightarrow> string \<Rightarrow> int \<Rightarrow> int \<Rightarrow> MemoryRecord list \<times> store" where
  "getMemoriesByUser st userId maxRows nowMs =
     (let rows = limit maxRows (orderDesc (filter (\<lambda>r. user_id r = Some userId) (memories st)))
      in (map mapMemoryRow rows,
          st \<lparr> memories := fold (\<lambda>row. updateMemoryAccess (nowMs div 1000) (mem_id row)) rows
                               (memories st) \<rparr>))"

text \<open>
  SQLite's \<open>LIKE\<close>: \<open>%\<close> matches any run of characters, \<open>_\<close> any one character, and
  ASCII letters match without regard to case.
\<close>

definition lowerAscii :: "char \<Rightarrow> char" where
  "lowerAscii c =
     (case map_of (zip ''ABCDEFGHIJKLMNOPQRSTUVWXYZ'' ''abcdefghijklmnopqrstuvwxyz'') c of
        Some l \<Rightarrow> l | None \<Rightarrow> c)"

fun like :: "string \<Rightarrow> string \<Rightarrow> bool" where
  "like [] s = (s = [])"
| "like (p # ps) [] = (p = CHR ''%'' \<and> like ps [])"
| "like (p # ps) (c # cs) =
     (if p = CHR ''%'' then like ps (c # cs) \<or> like (p # ps) cs
      else (p = CHR ''_'' \<or> lowerAscii p = lowerAscii c) \<and> like ps cs)"

definition searchMemories ::
  "store \<Rightarrow> string \<Rightarrow> string option \<Rightarrow> int \<Rightarrow> MemoryRecord list \<times> store" where
  "searchMemories st query sessionId maxRows =
     (let sid = strOrNull sessionId;
          rows = limit maxRows (orderDesc (filter
            (\<lambda>r. ((sid \<noteq> None \<and> session_id r = sid) \<or> session_id r = None \<or>
                   (sid \<noteq> None \<and> user_id r = sid)) \<and>
                  like (''%'' @ query @ ''%'') (content r))
            (memories st)))
      in (map mapMemoryRow rows, st))"

subsection \<open>Retention sweep\<close>

text \<open>\<open>SELECT DISTINCT user_id FROM memories WHERE user_id IS NOT NULL\<close>\<close>

definition usersQuery :: "MemoryRow list \<Rightarrow> string list" where
  "usersQuery rows = remdups (List.map_filter user_id rows)"

text \<open>\<open>DELETE FROM memories WHERE user_id = ? AND created_at < ? AND importance < ?\<close>\<close>

definition oldMemoriesStmt :: "string \<Rightarrow> int \<Rightarrow> real \<Rightarrow> MemoryRow list \<Rightarrow> MemoryRow list" where
  "oldMemoriesStmt uid maxAgeTimestamp minImp rows =
     filter (\<lambda>r. \<not> (user_id r = Some uid \<and> created_at r < maxAgeTimestamp \<and>
                     importance r < minImp)) rows"

text \<open>\<open>SELECT COUNT(*) FROM memories WHERE user_id = ?\<close>\<close>

definition countStmt :: "string \<Rightarrow> MemoryRow list \<Rightarrow> int" where
  "countStmt uid rows = int (length (filter (\<lambda>r. user_id r = Some uid) rows))"

text \<open>
  \<open>DELETE FROM memories WHERE rowid IN (SELECT rowid FROM memories WHERE user_id = ?
  ORDER BY importance ASC, accessed_at ASC LIMIT ?)\<close>
\<close>

definition excessVictims :: "string \<Rightarrow> int \<Rightarrow> MemoryRow list \<Rightarrow> MemoryRow list" where
  "excessVictims uid excess rows =
     limit excess (orderAsc (filter (\<lambda>r. user_id r = Some uid) rows))"

definition excessStmt :: "string \<Rightarrow> int \<Rightarrow> MemoryRow list \<Rightarrow> MemoryRow list" where
  "excessStmt uid excess rows =
     filter (\<lambda>r. rowid r \<notin> set (map rowid (excessVictims uid excess rows))) rows"

text \<open>The body of the loop over users: the age pass, then the capacity pass.\<close>

definition sweepUser :: "MemoryExpiryConfig \<Rightarrow> int \<Rightarrow> string \<Rightarrow> MemoryRow list \<Rightarrow> MemoryRow list" where
  "sweepUser cfg maxAgeTimestamp uid rows =
     (let aged = oldMemoriesStmt uid maxAgeTimestamp (minImportance cfg) rows;
          count = countStmt uid aged
      in if count > maxMemoriesPerUser cfg
         then excessStmt uid (count - maxMemoriesPerUser cfg) aged
         else aged)"

text \<open>\<open>if (options?.userId && user_id !== options.userId) continue\<close>\<close>

definition skipped :: "string option \<Rightarrow> string \<Rightarrow> bool" where
  "skipped target uid = (case target of None \<Rightarrow> False | Some t \<Rightarrow> t \<noteq> [] \<and> uid \<noteq> t)"

text \<open>The \<open>for\<close> loop over the users read before it starts.\<close>

definition sweepLoop ::
  "MemoryExpiryConfig \<Rightarrow> int \<Rightarrow> string option \<Rightarrow> string list \<Rightarrow> MemoryRow list \<Rightarrow> MemoryRow list" where
  "sweepLoop cfg maxAgeTimestamp target users rows =
     fold (\<lambda>uid rows. if skipped target uid then rows
                       else sweepUser cfg maxAgeTimestamp uid rows) users rows"

definition cleanupExpiredMemories :: "store \<Rightarrow> string option \<Rightarrow> int \<Rightarrow> store" where
  "cleanupExpiredMemories st target nowMs =
     (if \<not> enabled (expiryConfig st) then st
      else
        let maxAgeTimestamp = nowMs div 1000 - maxAgeDays (expiryConfig st) * 86400;
            users = usersQuery (memories st)
        in st \<lparr> memories :=
             sweepLoop (expiryConfig st) maxAgeTimestamp target users (memories st) \<rparr>)"

subsection \<open>Example stores\<close>

definition exampleConfig :: MemoryExpiryConfig where
  "exampleConfig = \<lparr> enabled = True, maxMemoriesPerUser = 2, maxAgeDays = 90,
     minImportance = 3 / 10, cleanupOnStartup = True \<rparr>"

definition fact ::
  "nat \<Rightarrow> string \<Rightarrow> string option \<Rightarrow> string option \<Rightarrow> real \<Rightarrow> int \<Rightarrow> int \<Rightarrow> MemoryRow" where
  "fact n ident sid uid imp created lastAccess =
     \<lparr> rowid = n, mem_id = ident, session_id = sid, user_id = uid, content = ''note'',
       importance = imp, access_count = 0, created_at = created, accessed_at = lastAccess,
       tags = None \<rparr>"

text \<open>
  Alice has an old unimportant fact, an old important one and two fresh ones; there is an
  old unimportant fact scoped to a session, and Bob has one fresh fact.
\<close>

definition exampleRows :: "MemoryRow list" where
  "exampleRows =
     [fact 1 ''m1'' None (Some ''alice'') (1 / 10) 1600000000 1600000000,
      fact 2 ''m2'' None (Some ''alice'') 2 1600000000 1600000000,
      fact 3 ''m3'' None (Some ''alice'') 1 1699000000 1699000000,
      fact 4 ''m4'' None (Some ''alice'') (1 / 2) 1699000000 1699000000,
      fact 5 ''m5'' (Some ''s1'') None (1 / 10) 1600000000 1600000000,
      fact 6 ''m6'' None (Some ''bob'') (1 / 5) 1699000000 1699000000]"

definition exampleStore :: store where
  "exampleStore = \<lparr> sessions = [], messages = [], memories = exampleRows, tool_calls = [],
     expiryConfig = exampleConfig \<rparr>"

text \<open>A store with Alice's old important fact and Bob's fact only.\<close>

definition twoFacts :: store where
  "twoFacts = exampleStore \<lparr> memories := [exampleRows ! 1, exampleRows ! 5] \<rparr>"

definition exampleNow :: int where
  "exampleNow = 1700000000000"

text \<open>Inserting facts for one user with \<open>addMemory\<close>, then sweeping.\<close>

definition emptyStore :: "MemoryExpiryConfig \<Rightarrow> store" where
  "emptyStore cfg = \<lparr> sessions = [], messages = [], memories = [], tool_calls = [],
     expiryConfig = cfg \<rparr>"

fun insertAll :: "store \<Rightarrow> (string \<times> real) list \<Rightarrow> string \<Rightarrow> int \<Rightarrow> thrown + store" where
  "insertAll st [] uid nowMs = Inr st"
| "insertAll st ((ident, imp) # facts) uid nowMs =
     (case addMemory st ''note'' None imp None (Some uid) ident nowMs of
        Inl t \<Rightarrow> Inl t
      | Inr (i, st') \<Rightarrow> insertAll st' facts uid nowMs)"

definition insertAndSweep ::
  "MemoryExpiryConfig \<Rightarrow> (string \<times> real) list \<Rightarrow> string \<Rightarrow> int \<Rightarrow> thrown + MemoryRow list" where
  "insertAndSweep cfg facts uid nowMs =
     (case insertAll (emptyStore cfg) facts uid nowMs of
        Inl t \<Rightarrow> Inl t
      | Inr st \<Rightarrow> Inr (memories (cleanupExpiredMemories st None nowMs)))"

definition capacityFive :: MemoryExpiryConfig where
  "capacityFive = exampleConfig \<lparr> maxMemoriesPerUser := 5 \<rparr>"

definition capacityOne :: MemoryExpiryConfig where
  "capacityOne = exampleConfig \<lparr> maxMemoriesPerUser := 1 \<rparr>"

definition sevenFacts :: "(string \<times> real) list" where
  "sevenFacts = [(''f1'', 1), (''f2'', 2), (''f3'', 3), (''f4'', 4), (''f5'', 5), (''f6'', 6),
     (''f7'', 7)]"

text \<open>A store with one session, and a message for it.\<close>

definition oneSession :: store where
  "oneSession = \<lparr> sessions = [\<lparr> s_id = ''s1'', s_user_id = ''alice'', s_created_at = 1700000000,
       s_updated_at = 1700000000, s_metadata = None \<rparr>],
     messages = [], memories = [], tool_calls = [], expiryConfig = exampleConfig \<rparr>"

definition helloMessage :: Message where
  "helloMessage = \<lparr> msg_id = Some ''msg1'', msg_role = User, msg_content = ''hello'',
     msg_timestamp = Some 1700000100, msg_toolCallId = None, msg_toolName = None \<rparr>"

definition helloRow :: MessageRow where
  "helloRow = \<lparr> m_id = ''msg1'', m_session_id = ''s1'', m_role = User, m_content = ''hello'',
     m_tool_call_id = None, m_tool_name = None, m_timestamp = 1700000100, m_tokens = None \<rparr>"

section \<open>Agent: tool calls of a turn (agents/agent.ts)\<close>

record ToolCall =
  call_id :: string
  call_name :: string
  call_parameters :: string

record AgentResponse =
  resp_content :: string
  resp_toolCalls :: "ToolCall list option"
  resp_usage :: "(nat \<times> nat \<times> nat) option"

text \<open>An entry of the local \<open>results\<close> array of \<open>handleToolCalls\<close>.\<close>

record ToolOutcome =
  o_toolName :: string
  o_success :: bool
  o_result :: "string option"
  o_error :: "string option"

text \<open>\<open>error instanceof Error ? error.message : String(error)\<close>\<close>

fun errorText :: "thrown \<Rightarrow> string" where
  "errorText (Err e) = message e"
| "errorText (NonError s) = s"

subsection \<open>Tools and their registry (agents/tools)\<close>

text \<open>
  A tool (\<open>AgentTool\<close>): \<open>validateParams\<close> gives the reason when it rejects the
  parameters, \<open>execute\<close> throws or returns. Parameters are held as their JSON text.
\<close>

record AgentTool =
  t_validateParams :: "string \<Rightarrow> string option"
  t_execute :: "string \<Rightarrow> thrown + ToolCallResult"

text \<open>
  \<open>executeSafe\<close> never throws: invalid parameters and an exception of \<open>execute\<close> both
  become a returned result with \<open>success = false\<close> and the reason as \<open>error\<close>.
\<close>

definition executeSafe :: "AgentTool \<Rightarrow> string \<Rightarrow> ToolCallResult" where
  "executeSafe tool params =
     (case t_validateParams tool params of
        Some reason \<Rightarrow> \<lparr> success = False, data = None, error = Some reason \<rparr>
      | None \<Rightarrow>
          (case t_execute tool params of
             Inr toolResult \<Rightarrow> toolResult
           | Inl t \<Rightarrow> \<lparr> success = False, data = None, error = Some (errorText t) \<rparr>))"

text \<open>
  \<open>ToolRegistry.execute\<close>: the registry maps names to tools; an unknown name is the
  only thing it throws for.
\<close>

definition toolNotFound :: "string \<Rightarrow> thrown" where
  "toolNotFound name = Err (ErrorObj 0 (''Tool not found: '' @ name))"

definition execute :: "(string \<Rightarrow> AgentTool option) \<Rightarrow> string \<Rightarrow> string \<Rightarrow> thrown + ToolCallResult" where
  "execute tools name params =
     (case tools name of
        None \<Rightarrow> Inl (toolNotFound name)
      | Some tool \<Rightarrow> Inr (executeSafe tool params))"

subsection \<open>The agent\<close>

text \<open>
  What the agent runs against: its session, its tool registry, the ids \<open>generateId()\<close>
  hands out (two per tool call: one for the record of the \<open>try\<close> block, one for the
  record of the \<open>catch\<close> block) and the clock.
\<close>

record agent =
  a_sessionId :: string
  a_userId :: string
  a_toolRegistry :: "string \<Rightarrow> AgentTool option"
  a_generateId :: "nat \<Rightarrow> string"
  a_now :: int

text \<open>A template literal prints an absent value as \<open>undefined\<close>.\<close>

definition printed :: "string option \<Rightarrow> string" where
  "printed x = (case x of Some s \<Rightarrow> s | None \<Rightarrow> ''undefined'')"

definition newline :: string where
  "newline = [CHR 0x0A]"

text \<open>
  One iteration of the loop over the tool calls: the \<open>try\<close> block executes the tool and
  records the call (\<open>returnedRecord\<close>); when either throws, the \<open>catch\<close> block records a
  failed call (\<open>failedRecord\<close>, which has no \<open>result\<close>), and an exception of that second
  \<open>addToolCall\<close> leaves \<open>handleToolCalls\<close>.
\<close>

definition returnedRecord :: "agent \<Rightarrow> nat \<Rightarrow> ToolCall \<Rightarrow> ToolCallResult \<Rightarrow> ToolCallRecord" where
  "returnedRecord ag k toolCall toolResult =
     \<lparr> tc_id = a_generateId ag (2 * k), tc_sessionId = a_sessionId ag,
       tc_messageId = None, tc_toolName = call_name toolCall,
       tc_parameters = call_parameters toolCall, tc_result = Some toolResult,
       tc_success = success toolResult, tc_durationMs = None, tc_timestamp = a_now ag \<rparr>"

definition failedRecord :: "agent \<Rightarrow> nat \<Rightarrow> ToolCall \<Rightarrow> ToolCallRecord" where
  "failedRecord ag k toolCall =
     \<lparr> tc_id = a_generateId ag (2 * k + 1), tc_sessionId = a_sessionId ag,
       tc_messageId = None, tc_toolName = call_name toolCall,
       tc_parameters = call_parameters toolCall, tc_result = None,
       tc_success = False, tc_durationMs = None, tc_timestamp = a_now ag \<rparr>"

definition tryBlock :: "agent \<Rightarrow> nat \<Rightarrow> ToolCall \<Rightarrow> store \<Rightarrow> thrown + (ToolOutcome \<times> store)" where
  "tryBlock ag k toolCall st =
     (case execute (a_toolRegistry ag) (call_name toolCall) (call_parameters toolCall) of
        Inl t \<Rightarrow> Inl t
      | Inr toolResult \<Rightarrow>
          (case addToolCall st (returnedRecord ag k toolCall toolResult) of
             Inl t \<Rightarrow> Inl t
           | Inr st' \<Rightarrow>
               Inr (\<lparr> o_toolName = call_name toolCall, o_success = success toolResult,
                      o_result = data toolResult, o_error = error toolResult \<rparr>, st')))"

definition catchBlock :: "agent \<Rightarrow> nat \<Rightarrow> ToolCall \<Rightarrow> thrown \<Rightarrow> store \<Rightarrow> thrown + (ToolOutcome \<times> store)" where
  "catchBlock ag k toolCall t st =
     (case addToolCall st (failedRecord ag k toolCall) of
        Inl t' \<Rightarrow> Inl t'
      | Inr st' \<Rightarrow>
          Inr (\<lparr> o_toolName = call_name toolCall, o_success = False, o_result = None,
                 o_error = Some (errorText t) \<rparr>, st'))"

fun runToolCalls :: "agent \<Rightarrow> nat \<Rightarrow> ToolCall list \<Rightarrow> store \<Rightarrow> thrown + (ToolOutcome list \<times> store)" where
  "runToolCalls ag k [] st = Inr ([], st)"
| "runToolCalls ag k (toolCall # rest) st =
     (case (case tryBlock ag k toolCall st of
              Inl t \<Rightarrow> catchBlock ag k toolCall t st
            | Inr done \<Rightarrow> Inr done) of
        Inl t \<Rightarrow> Inl t
      | Inr (entry, st') \<Rightarrow>
          (case runToolCalls ag (Suc k) rest st' of
             Inl t \<Rightarrow> Inl t
           | Inr (entries, st'') \<Rightarrow> Inr (entry # entries, st'')))"

definition summaryLine :: "ToolOutcome \<Rightarrow> string" where
  "summaryLine r =
     (if o_success r
      then newline @ ''Tool '' @ o_toolName r @ '' result: '' @ printed (o_result r)
      else newline @ ''Tool '' @ o_toolName r @ '' failed: '' @ printed (o_error r))"

text \<open>\<open>Array.prototype.join\<close>\<close>

fun joinWith :: "string \<Rightarrow> string list \<Rightarrow> string" where
  "joinWith sep [] = []"
| "joinWith sep [x] = x"
| "joinWith sep (x # y # ys) = x @ sep @ joinWith sep (y # ys)"

definition leadIn :: string where
  "leadIn = ''I'' @ [CHR 0x27] @ ''ve used the available tools to help with your request:''"

definition handleToolCalls :: "agent \<Rightarrow> store \<Rightarrow> AgentResponse \<Rightarrow> thrown + (AgentResponse \<times> store)" where
  "handleToolCalls ag st response =
     (case resp_toolCalls response of
        None \<Rightarrow> Inr (response, st)
      | Some [] \<Rightarrow> Inr (response, st)
      | Some (c # cs) \<Rightarrow>
          (case runToolCalls ag 0 (c # cs) st of
             Inl t \<Rightarrow> Inl t
           | Inr (results, st') \<Rightarrow>
               let toolSummary = joinWith newline (map summaryLine results);
                   baseContent = resp_content response;
                   finalContent =
                     (if baseContent = [] \<and> results \<noteq> [] then leadIn @ toolSummary
                      else baseContent @ toolSummary)
               in Inr (response \<lparr> resp_content := finalContent \<rparr>, st')))"

subsection \<open>Example turn\<close>

text \<open>
  A registry with two tools: \<open>echo\<close> returns its parameters, \<open>flaky\<close> raises. Any other
  name is unknown to it.
\<close>

definition echoTool :: AgentTool where
  "echoTool = \<lparr> t_validateParams = (\<lambda>params. None),
     t_execute = (\<lambda>params. Inr \<lparr> success = True, data = Some params, error = None \<rparr>) \<rparr>"

definition flakyTool :: AgentTool where
  "flakyTool = \<lparr> t_validateParams = (\<lambda>params. None),
     t_execute = (\<lambda>params. Inl (Err (ErrorObj 5 ''socket hang up''))) \<rparr>"

definition exampleRegistry :: "string \<Rightarrow> AgentTool option" where
  "exampleRegistry = map_of [(''echo'', echoTool), (''flaky'', flakyTool)]"

definition exampleIds :: "nat \<Rightarrow> string" where
  "exampleIds k = replicate (Suc k) CHR ''x''"

definition exampleAgent :: agent where
  "exampleAgent = \<lparr> a_sessionId = ''s1'', a_userId = ''alice'', a_toolRegistry = exampleRegistry,
     a_generateId = exampleIds, a_now = 1700000000000 \<rparr>"

definition ghostCall :: ToolCall where
  "ghostCall = \<lparr> call_id = ''c1'', call_name = ''ghost'', call_parameters = ''{}'' \<rparr>"

definition echoCall :: ToolCall where
  "echoCall = \<lparr> call_id = ''c2'', call_name = ''echo'', call_parameters = ''42'' \<rparr>"

definition twoCalls :: AgentResponse where
  "twoCalls = \<lparr> resp_content = ''Working.'', resp_toolCalls = Some [ghostCall, echoCall],
     resp_usage = None \<rparr>"

definition flakyCall :: ToolCall where
  "flakyCall = \<lparr> call_id = ''c3'', call_name = ''flaky'', call_parameters = ''{}'' \<rparr>"

definition flakyCalls :: AgentResponse where
  "flakyCalls = \<lparr> resp_content = ''Working.'', resp_toolCalls = Some [flakyCall, echoCall],
     resp_usage = None \<rparr>"

text \<open>The records and the text a finished \<open>handleToolCalls\<close> leaves.\<close>

definition recordsOf :: "thrown + (AgentResponse \<times> store) \<Rightarrow> ToolCallRecord list" where
  "recordsOf r = (case r of Inl t \<Rightarrow> [] | Inr (response, st) \<Rightarrow> tool_calls st)"

definition contentOf :: "thrown + (AgentResponse \<times> store) \<Rightarrow> string" where
  "contentOf r = (case r of Inl t \<Rightarrow> [] | Inr (response, st) \<Rightarrow> resp_content response)"

section \<open>Properties of the retry loop\<close>

lemma retryLoop_invoked:
  "attempt \<le> maxAttempts options \<Longrightarrow> 1 \<le> invocations (retryLoop fn options rnd attempt lastError)"
  by (subst retryLoop.simps) (simp add: settle_def retried_def split: sum.split option.split)

lemma retryLoop_retry:
  assumes "attempt < maxAttempts options" and "fn (nat attempt) = Inl t"
    and "isRetriableError (toError t) (Some (retryCondition options))"
    and "onRetry options attempt (toError t) = None"
  shows "retryLoop fn options rnd attempt lastError =
     retried attempt (toError t) (calculateDelay attempt options (rnd attempt))
       (retryLoop fn options rnd (attempt + 1) (Some (toError t)))"
  using assms by (subst retryLoop.simps) simp

lemma retryLoop_last:
  assumes "attempt = maxAttempts options" and "fn (nat attempt) = Inl t"
  shows "retryLoop fn options rnd attempt lastError = settle (Inl (Err (toError t)))"
  using assms by (subst retryLoop.simps) simp

lemma retryLoop_fatal:
  assumes "attempt \<le> maxAttempts options" and "fn (nat attempt) = Inl t"
    and "\<not> isRetriableError (toError t) (Some (retryCondition options))"
  shows "retryLoop fn options rnd attempt lastError = settle (Inl (Err (toError t)))"
  using assms by (subst retryLoop.simps) simp

lemma retryLoop_success:
  assumes "attempt \<le> maxAttempts options" and "fn (nat attempt) = Inr v"
  shows "retryLoop fn options rnd attempt lastError = settle (Inr v)"
  using assms by (subst retryLoop.simps) simp

lemma retryLoop_callback_throws:
  assumes "attempt < maxAttempts options" and "fn (nat attempt) = Inl t"
    and "isRetriableError (toError t) (Some (retryCondition options))"
    and "onRetry options attempt (toError t) = Some t'"
  shows "retryLoop fn options rnd attempt lastError =
     \<lparr> result = Inl t', invocations = 1, onRetryCalls = [(attempt, toError t)], sleeps = [] \<rparr>"
  using assms by (subst retryLoop.simps) simp

text \<open>Every iteration of the loop takes one of six branches.\<close>

lemma retryLoop_cases:
  obtains (exhausted) "maxAttempts options < attempt"
  | (success) v where "attempt \<le> maxAttempts options" "fn (nat attempt) = Inr v"
  | (last) t where "attempt = maxAttempts options" "fn (nat attempt) = Inl t"
  | (fatal) t where "attempt < maxAttempts options" "fn (nat attempt) = Inl t"
      "\<not> isRetriableError (toError t) (Some (retryCondition options))"
  | (throws) t t' where "attempt < maxAttempts options" "fn (nat attempt) = Inl t"
      "isRetriableError (toError t) (Some (retryCondition options))"
      "onRetry options attempt (toError t) = Some t'"
  | (retry) t where "attempt < maxAttempts options" "fn (nat attempt) = Inl t"
      "isRetriableError (toError t) (Some (retryCondition options))"
      "onRetry options attempt (toError t) = None"
proof (cases "maxAttempts options < attempt")
  case True then show ?thesis by (rule exhausted)
next
  case le: False
  show ?thesis
  proof (cases "fn (nat attempt)")
    case (Inr v) with le show ?thesis by (intro success[of v]) auto
  next
    case (Inl t)
    show ?thesis
    proof (cases "attempt = maxAttempts options")
      case True then show ?thesis using Inl by (intro last[of t]) auto
    next
      case False
      with le have lt: "attempt < maxAttempts options" by simp
      show ?thesis
      proof (cases "isRetriableError (toError t) (Some (retryCondition options))")
        case False with lt Inl show ?thesis by (intro fatal[of t]) auto
      next
        case True
        show ?thesis
        proof (cases "onRetry options attempt (toError t)")
          case None with lt Inl True show ?thesis by (intro retry[of t]) auto
        next
          case (Some t') with lt Inl True show ?thesis by (intro throws[of t t']) auto
        qed
      qed
    qed
  qed
qed

lemma retryLoop_exhausted:
  assumes "maxAttempts options < attempt"
  shows "retryLoop fn options rnd attempt lastError =
    \<lparr> result = Inl (Err (orElse lastError (Synthetic ''Retry failed with unknown error''))),
      invocations = 0, onRetryCalls = [], sleeps = [] \<rparr>"
  using assms by (subst retryLoop.simps) simp

lemma retryLoop_calls:
  "\<forall>k err. onRetry options k err = None \<Longrightarrow>
   list_all2 (callOf fn) (onRetryCalls (retryLoop fn options rnd attempt lastError))
     [attempt .. attempt + int (invocations (retryLoop fn options rnd attempt lastError)) - 2]"
proof (induction fn options rnd attempt lastError rule: retryLoop.induct)
  case (1 fn options rnd attempt lastError)
  show ?case
  proof (cases rule: retryLoop_cases[where options=options and attempt=attempt and fn=fn])
    case exhausted
    then show ?thesis by (simp add: retryLoop_exhausted)
  next
    case (success v)
    then show ?thesis by (simp add: retryLoop_success settle_def)
  next
    case (last t)
    then show ?thesis by (simp add: retryLoop_last settle_def)
  next
    case (fatal t)
    then show ?thesis by (simp add: retryLoop_fatal settle_def)
  next
    case (throws t t')
    then show ?thesis using "1.prems" by simp
  next
    case (retry t)
    let ?rest = "retryLoop fn options rnd (attempt + 1) (Some (toError t))"
    have IH: "list_all2 (callOf fn) (onRetryCalls ?rest)
        [attempt + 1 .. attempt + 1 + int (invocations ?rest) - 2]"
      using "1.IH"[of t] retry "1.prems" by simp
    have "1 \<le> invocations ?rest"
      using retry(1) by (intro retryLoop_invoked) simp
    then have "[attempt .. attempt + int (Suc (invocations ?rest)) - 2] =
        attempt # [attempt + 1 .. attempt + 1 + int (invocations ?rest) - 2]"
      by (subst upto_rec1) (simp_all add: algebra_simps)
    moreover have "callOf fn (attempt, toError t) attempt"
      using retry by (simp add: callOf_def)
    ultimately show ?thesis
      using IH retry by (simp add: retryLoop_retry retried_def)
  qed
qed

lemma retryLoop_result:
  "\<forall>k err. onRetry options k err = None \<Longrightarrow> attempt \<le> maxAttempts options \<Longrightarrow>
     result (retryLoop fn options rnd attempt lastError) =
       (case fn (nat (attempt + int (invocations (retryLoop fn options rnd attempt lastError)) - 1)) of
          Inr v \<Rightarrow> Inr v | Inl t \<Rightarrow> Inl (Err (toError t)))"
proof (induction fn options rnd attempt lastError rule: retryLoop.induct)
  case (1 fn options rnd attempt lastError)
  show ?case
  proof (cases rule: retryLoop_cases[where options=options and attempt=attempt and fn=fn])
    case exhausted
    then show ?thesis using "1.prems" by simp
  next
    case (success v)
    then show ?thesis by (simp add: retryLoop_success settle_def)
  next
    case (last t)
    then show ?thesis by (simp add: retryLoop_last settle_def)
  next
    case (fatal t)
    then show ?thesis by (simp add: retryLoop_fatal settle_def)
  next
    case (throws t t')
    then show ?thesis using "1.prems" by simp
  next
    case (retry t)
    let ?rest = "retryLoop fn options rnd (attempt + 1) (Some (toError t))"
    have IH: "result ?rest =
       (case fn (nat (attempt + 1 + int (invocations ?rest) - 1)) of
          Inr v \<Rightarrow> Inr v | Inl t \<Rightarrow> Inl (Err (toError t)))"
      using "1.IH"[of t] retry "1.prems" by simp
    have "attempt + int (Suc (invocations ?rest)) - 1 = attempt + 1 + int (invocations ?rest) - 1"
      by simp
    then show ?thesis
      using IH retry by (simp add: retryLoop_retry retried_def)
  qed
qed

lemma retryLoop_throwing_call:
  "(k, err) \<in> set (onRetryCalls (retryLoop fn options rnd attempt lastError)) \<Longrightarrow>
   onRetry options k err = Some t' \<Longrightarrow>
     result (retryLoop fn options rnd attempt lastError) = Inl t' \<and>
     int (invocations (retryLoop fn options rnd attempt lastError)) = k - attempt + 1"
proof (induction fn options rnd attempt lastError rule: retryLoop.induct)
  case (1 fn options rnd attempt lastError)
  show ?case
  proof (cases rule: retryLoop_cases[where options=options and attempt=attempt and fn=fn])
    case exhausted
    then show ?thesis using "1.prems" by (simp add: retryLoop_exhausted)
  next
    case (success v)
    then show ?thesis using "1.prems" by (simp add: retryLoop_success settle_def)
  next
    case (last t)
    then show ?thesis using "1.prems" by (simp add: retryLoop_last settle_def)
  next
    case (fatal t)
    then show ?thesis using "1.prems" by (simp add: retryLoop_fatal settle_def)
  next
    case (throws t t'')
    then show ?thesis using "1.prems" by (simp add: retryLoop_callback_throws)
  next
    case (retry t)
    let ?rest = "retryLoop fn options rnd (attempt + 1) (Some (toError t))"
    have "(k, err) \<in> set (onRetryCalls ?rest)"
      using "1.prems" retry by (auto simp: retryLoop_retry retried_def)
    then have "result ?rest = Inl t' \<and> int (invocations ?rest) = k - (attempt + 1) + 1"
      using "1.IH"[of t] retry "1.prems"(2) by simp
    then show ?thesis
      using retry by (simp add: retryLoop_retry retried_def)
  qed
qed



text \<open>No invocation follows a fatal failure.\<close>

lemma retryLoop_fatal_stops:
  "attempt \<le> k \<Longrightarrow> fn (nat k) = Inl t \<Longrightarrow>
   \<not> isRetriableError (toError t) (Some (retryCondition options)) \<Longrightarrow>
   attempt + int (invocations (retryLoop fn options rnd attempt lastError)) - 1 \<le> k"
proof (induction fn options rnd attempt lastError rule: retryLoop.induct)
  case (1 fn options rnd attempt lastError)
  show ?case
  proof (cases rule: retryLoop_cases[where options=options and attempt=attempt and fn=fn])
    case exhausted
    then show ?thesis using "1.prems" by (simp add: retryLoop_exhausted)
  next
    case (success v)
    then show ?thesis using "1.prems" by (simp add: retryLoop_success settle_def)
  next
    case (last t')
    then show ?thesis using "1.prems" by (simp add: retryLoop_last settle_def)
  next
    case (fatal t')
    then show ?thesis using "1.prems" by (simp add: retryLoop_fatal settle_def)
  next
    case (throws t' t'')
    then show ?thesis using "1.prems" by (simp add: retryLoop_callback_throws)
  next
    case (retry t')
    let ?rest = "retryLoop fn options rnd (attempt + 1) (Some (toError t'))"
    have "attempt \<noteq> k"
      using retry "1.prems" by auto
    then have "attempt + 1 \<le> k" using "1.prems"(1) by simp
    then have "attempt + 1 + int (invocations ?rest) - 1 \<le> k"
      using "1.IH"[of t'] retry "1.prems" by simp
    then show ?thesis
      using retry by (simp add: retryLoop_retry retried_def)
  qed
qed

text \<open>A run whose last invocation fails fatally rejects with that failure.\<close>

lemma retryLoop_fatal_result:
  "1 \<le> invocations (retryLoop fn options rnd attempt lastError) \<Longrightarrow>
   fn (nat (attempt + int (invocations (retryLoop fn options rnd attempt lastError)) - 1)) = Inl t \<Longrightarrow>
   \<not> isRetriableError (toError t) (Some (retryCondition options)) \<Longrightarrow>
   result (retryLoop fn options rnd attempt lastError) = Inl (Err (toError t))"
proof (induction fn options rnd attempt lastError rule: retryLoop.induct)
  case (1 fn options rnd attempt lastError)
  show ?case
  proof (cases rule: retryLoop_cases[where options=options and attempt=attempt and fn=fn])
    case exhausted
    then show ?thesis using "1.prems" by (simp add: retryLoop_exhausted)
  next
    case (success v)
    then show ?thesis using "1.prems" by (simp add: retryLoop_success settle_def)
  next
    case (last t')
    then show ?thesis using "1.prems" by (simp add: retryLoop_last settle_def)
  next
    case (fatal t')
    then show ?thesis using "1.prems" by (simp add: retryLoop_fatal settle_def)
  next
    case (throws t' t'')
    then show ?thesis using "1.prems" by (simp add: retryLoop_callback_throws)
  next
    case (retry t')
    let ?rest = "retryLoop fn options rnd (attempt + 1) (Some (toError t'))"
    have inv: "1 \<le> invocations ?rest"
      using retry(1) by (intro retryLoop_invoked) simp
    have "attempt + int (Suc (invocations ?rest)) - 1 = attempt + 1 + int (invocations ?rest) - 1"
      by simp
    then have "fn (nat (attempt + 1 + int (invocations ?rest) - 1)) = Inl t"
      using "1.prems"(2) retry by (simp add: retryLoop_retry retried_def)
    then have "result ?rest = Inl (Err (toError t))"
      using "1.IH"[of t'] retry inv "1.prems"(3) by simp
    then show ?thesis
      using retry by (simp add: retryLoop_retry retried_def)
  qed
qed

text \<open>A retryable failure before the last attempt, with a quiet callback, is retried.\<close>

lemma retryLoop_retry_follows:
  "attempt \<le> k \<Longrightarrow> k < maxAttempts options \<Longrightarrow> fn (nat k) = Inl t \<Longrightarrow>
   isRetriableError (toError t) (Some (retryCondition options)) \<Longrightarrow>
   onRetry options k (toError t) = None \<Longrightarrow>
   k \<le> attempt + int (invocations (retryLoop fn options rnd attempt lastError)) - 1 \<Longrightarrow>
   k < attempt + int (invocations (retryLoop fn options rnd attempt lastError)) - 1"
proof (induction fn options rnd attempt lastError rule: retryLoop.induct)
  case (1 fn options rnd attempt lastError)
  show ?case
  proof (cases rule: retryLoop_cases[where options=options and attempt=attempt and fn=fn])
    case exhausted
    then show ?thesis using "1.prems" by simp
  next
    case (success v)
    then show ?thesis using "1.prems" by (auto simp: retryLoop_success settle_def)
  next
    case (last t')
    then show ?thesis using "1.prems" by (auto simp: retryLoop_last settle_def)
  next
    case (fatal t')
    then show ?thesis using "1.prems" by (auto simp: retryLoop_fatal settle_def)
  next
    case (throws t' t'')
    then show ?thesis using "1.prems" by (auto simp: retryLoop_callback_throws)
  next
    case (retry t')
    let ?rest = "retryLoop fn options rnd (attempt + 1) (Some (toError t'))"
    have inv: "1 \<le> invocations ?rest"
      using retry(1) by (intro retryLoop_invoked) simp
    show ?thesis
    proof (cases "attempt = k")
      case True
      then show ?thesis using inv retry by (simp add: retryLoop_retry retried_def)
    next
      case False
      then have le: "attempt + 1 \<le> k" using "1.prems"(1) by simp
      have "k \<le> attempt + 1 + int (invocations ?rest) - 1"
        using "1.prems"(6) retry by (simp add: retryLoop_retry retried_def)
      then have "k < attempt + 1 + int (invocations ?rest) - 1"
        using "1.IH"[of t'] retry le "1.prems"(2,3,4,5) by simp
      then show ?thesis
        using retry by (simp add: retryLoop_retry retried_def)
    qed
  qed
qed

lemma str_includes_iff: "str_includes s p \<longleftrightarrow> sublist p s"
  by (induction s) (auto simp: sublist_Cons_right)

lemma str_includes_append: "str_includes s (p @ q) \<Longrightarrow> str_includes s p"
  unfolding str_includes_iff sublist_def by (metis append.assoc)

lemma http5xx_includes_5: "http5xx code \<Longrightarrow> str_includes s code \<Longrightarrow> str_includes s ''5''"
  by (cases code rule: http5xx.cases) (auto dest: str_includes_append[of _ "''5''", simplified])

text \<open>
  Claim C2 as the spec states it does not hold. With no custom predicate the default
  predicate is \<open>() => true\<close>, so an error that is neither network-class nor 5xx nor 429
  (\<open>Invalid API key\<close>) is retried until the attempts run out. With a custom predicate
  that rejects every error, a connection reset is still retried: the built-in checks run
  before the predicate is asked.
\<close>

theorem C2_counterexample:
  "invocations (withRetry invalidKey noOptions noRandom) = 3 \<and>
   \<not> neverRetry (ErrorObj 1 ''read ECONNRESET'') \<and>
   invocations (withRetry connectionReset neverRetryOptions noRandom) = 3"
  by (simp add: withRetry_def resolve_def orElse_def retryLoop.simps isRetriableError_def
      settle_def retried_def noOptions_def neverRetryOptions_def invalidKey_def
      connectionReset_def neverRetry_def)

text \<open>
  Claim C2, amended. An error whose message names a network failure (\<open>ECONNRESET\<close>,
  \<open>ETIMEDOUT\<close>, \<open>ENOTFOUND\<close>, \<open>EAI_AGAIN\<close>), \<open>429\<close> or a status code 500 to 599 is
  retryable whatever the custom predicate says. For an error whose message has none of
  these and no character \<open>5\<close>, the verdict is the custom predicate's when one is
  supplied, and retryable when none is. A fatal failure at any attempt \<open>k\<close> is thrown at
  once: the operation is never invoked more than \<open>k\<close> times, and a run that reaches
  attempt \<open>k\<close> rejects with that failure. A retryable failure at an attempt before the
  last, with a callback that returns, is followed by the next invocation.
\<close>

theorem C2_classification:
  "((str_includes (message e) ''ECONNRESET'' \<or> str_includes (message e) ''ETIMEDOUT'' \<or>
     str_includes (message e) ''ENOTFOUND'' \<or> str_includes (message e) ''EAI_AGAIN'' \<or>
     str_includes (message e) ''429'' \<or> (http5xx code \<and> str_includes (message e) code))
    \<longrightarrow> isRetriableError e (Some (retryCondition (resolve options)))) \<and>
   (\<not> str_includes (message e) ''ECONNRESET'' \<and> \<not> str_includes (message e) ''ETIMEDOUT'' \<and>
    \<not> str_includes (message e) ''ENOTFOUND'' \<and> \<not> str_includes (message e) ''EAI_AGAIN'' \<and>
    \<not> str_includes (message e) ''429'' \<and> \<not> str_includes (message e) ''5''
    \<longrightarrow> isRetriableError e (Some (retryCondition (resolve options))) =
        (case given_retryCondition options of Some c \<Rightarrow> c e | None \<Rightarrow> True)) \<and>
   (1 \<le> maxAttempts (resolve options) \<and> fn 1 = Inl t \<and>
    \<not> isRetriableError (toError t) (Some (retryCondition (resolve options)))
    \<longrightarrow> withRetry fn options rnd = settle (Inl (Err (toError t)))) \<and>
   (1 < maxAttempts (resolve options) \<and> fn 1 = Inl t \<and>
    isRetriableError (toError t) (Some (retryCondition (resolve options))) \<and>
    onRetry (resolve options) 1 (toError t) = None
    \<longrightarrow> 2 \<le> invocations (withRetry fn options rnd)) \<and>
   (1 \<le> k \<and> fn k = Inl t \<and>
    \<not> isRetriableError (toError t) (Some (retryCondition (resolve options)))
    \<longrightarrow> invocations (withRetry fn options rnd) \<le> k \<and>
        (k \<le> invocations (withRetry fn options rnd) \<longrightarrow>
           result (withRetry fn options rnd) = Inl (Err (toError t)))) \<and>
   (1 \<le> k \<and> int k < maxAttempts (resolve options) \<and> fn k = Inl t \<and>
    isRetriableError (toError t) (Some (retryCondition (resolve options))) \<and>
    onRetry (resolve options) (int k) (toError t) = None \<and>
    k \<le> invocations (withRetry fn options rnd)
    \<longrightarrow> k + 1 \<le> invocations (withRetry fn options rnd))"
proof (intro conjI impI)
  assume "str_includes (message e) ''ECONNRESET'' \<or> str_includes (message e) ''ETIMEDOUT'' \<or>
     str_includes (message e) ''ENOTFOUND'' \<or> str_includes (message e) ''EAI_AGAIN'' \<or>
     str_includes (message e) ''429'' \<or> (http5xx code \<and> str_includes (message e) code)"
  then show "isRetriableError e (Some (retryCondition (resolve options)))"
    unfolding isRetriableError_def using http5xx_includes_5[of code "message e"] by auto
next
  assume "\<not> str_includes (message e) ''ECONNRESET'' \<and> \<not> str_includes (message e) ''ETIMEDOUT'' \<and>
    \<not> str_includes (message e) ''ENOTFOUND'' \<and> \<not> str_includes (message e) ''EAI_AGAIN'' \<and>
    \<not> str_includes (message e) ''429'' \<and> \<not> str_includes (message e) ''5''"
  then show "isRetriableError e (Some (retryCondition (resolve options))) =
        (case given_retryCondition options of Some c \<Rightarrow> c e | None \<Rightarrow> True)"
    by (simp add: isRetriableError_def resolve_def orElse_def split: option.split)
next
  assume "1 \<le> maxAttempts (resolve options) \<and> fn 1 = Inl t \<and>
    \<not> isRetriableError (toError t) (Some (retryCondition (resolve options)))"
  then show "withRetry fn options rnd = settle (Inl (Err (toError t)))"
    unfolding withRetry_def by (intro retryLoop_fatal) simp_all
next
  assume a: "1 < maxAttempts (resolve options) \<and> fn 1 = Inl t \<and>
    isRetriableError (toError t) (Some (retryCondition (resolve options))) \<and>
    onRetry (resolve options) 1 (toError t) = None"
  then have "withRetry fn options rnd =
      retried 1 (toError t) (calculateDelay 1 (resolve options) (rnd 1))
        (retryLoop fn (resolve options) rnd (1 + 1) (Some (toError t)))"
    unfolding withRetry_def by (intro retryLoop_retry) simp_all
  moreover have "1 \<le> invocations (retryLoop fn (resolve options) rnd (1 + 1) (Some (toError t)))"
    using a by (intro retryLoop_invoked) simp
  ultimately show "2 \<le> invocations (withRetry fn options rnd)"
    by (simp add: retried_def)
next
  assume a: "1 \<le> k \<and> fn k = Inl t \<and>
    \<not> isRetriableError (toError t) (Some (retryCondition (resolve options)))"
  have "1 + int (invocations (retryLoop fn (resolve options) rnd 1 None)) - 1 \<le> int k"
    using a by (intro retryLoop_fatal_stops[where t = t]) simp_all
  then show le: "invocations (withRetry fn options rnd) \<le> k"
    by (simp add: withRetry_def)
  assume "k \<le> invocations (withRetry fn options rnd)"
  then have eq: "invocations (retryLoop fn (resolve options) rnd 1 None) = k"
    using le by (simp add: withRetry_def)
  show "result (withRetry fn options rnd) = Inl (Err (toError t))"
    unfolding withRetry_def using a eq
    by (intro retryLoop_fatal_result) simp_all
next
  assume a: "1 \<le> k \<and> int k < maxAttempts (resolve options) \<and> fn k = Inl t \<and>
    isRetriableError (toError t) (Some (retryCondition (resolve options))) \<and>
    onRetry (resolve options) (int k) (toError t) = None \<and>
    k \<le> invocations (withRetry fn options rnd)"
  have "int k < 1 + int (invocations (retryLoop fn (resolve options) rnd 1 None)) - 1"
    using a by (intro retryLoop_retry_follows[where t = t]) (simp_all add: withRetry_def)
  then show "k + 1 \<le> invocations (withRetry fn options rnd)"
    by (simp add: withRetry_def)
qed

text \<open>
  The amended classification at concrete errors: a 503 under a predicate that rejects
  everything, \<open>Invalid API key\<close> with and without that predicate, and a connection reset
  followed by \<open>Invalid API key\<close>, which ends the run at the second attempt.
\<close>

theorem C2_classification_witness:
  "isRetriableError unavailable (Some (retryCondition (resolve neverRetryOptions))) \<and>
   \<not> isRetriableError (ErrorObj 1 ''Invalid API key'')
       (Some (retryCondition (resolve neverRetryOptions))) \<and>
   withRetry invalidKey neverRetryOptions noRandom =
     settle (Inl (Err (ErrorObj 1 ''Invalid API key''))) \<and>
   2 \<le> invocations (withRetry invalidKey noOptions noRandom) \<and>
   invocations (withRetry resetThenInvalidKey neverRetryOptions noRandom) = 2 \<and>
   result (withRetry resetThenInvalidKey neverRetryOptions noRandom) =
     Inl (Err (ErrorObj 2 ''Invalid API key''))"
proof -
  have first: "isRetriableError unavailable (Some (retryCondition (resolve neverRetryOptions))) \<and>
   \<not> isRetriableError (ErrorObj 1 ''Invalid API key'')
       (Some (retryCondition (resolve neverRetryOptions))) \<and>
   withRetry invalidKey neverRetryOptions noRandom =
     settle (Inl (Err (ErrorObj 1 ''Invalid API key''))) \<and>
   2 \<le> invocations (withRetry invalidKey noOptions noRandom)"
    using C2_classification[where e = unavailable and code = "''503''"
        and options = neverRetryOptions and fn = invalidKey and t = "Err (ErrorObj 1 ''Invalid API key'')"
        and rnd = noRandom and k = 1]
      C2_classification[where e = "ErrorObj 1 ''Invalid API key''" and code = "''503''"
        and options = noOptions and fn = invalidKey and t = "Err (ErrorObj 1 ''Invalid API key'')"
        and rnd = noRandom and k = 1]
      C2_classification[where e = "ErrorObj 1 ''Invalid API key''" and code = "''503''"
        and options = neverRetryOptions and fn = invalidKey and t = "Err (ErrorObj 1 ''Invalid API key'')"
        and rnd = noRandom and k = 1]
    by (simp add: unavailable_def neverRetryOptions_def noOptions_def resolve_def orElse_def
        invalidKey_def neverRetry_def isRetriableError_def)
  have reached: "1 \<le> invocations (withRetry resetThenInvalidKey neverRetryOptions noRandom)"
    unfolding withRetry_def
    by (intro retryLoop_invoked) (simp add: neverRetryOptions_def noOptions_def resolve_def orElse_def)
  have retryable: "isRetriableError (ErrorObj 1 ''read ECONNRESET'')
      (Some (retryCondition (resolve neverRetryOptions)))"
    by (simp add: isRetriableError_def)
  have fatal: "\<not> isRetriableError (ErrorObj 2 ''Invalid API key'')
      (Some (retryCondition (resolve neverRetryOptions)))"
    by (simp add: isRetriableError_def neverRetryOptions_def noOptions_def resolve_def orElse_def
        neverRetry_def)
  have quiet: "onRetry (resolve neverRetryOptions) 1 (ErrorObj 1 ''read ECONNRESET'') = None"
    "1 < maxAttempts (resolve neverRetryOptions)"
    by (simp_all add: neverRetryOptions_def noOptions_def resolve_def orElse_def)
  have two: "2 \<le> invocations (withRetry resetThenInvalidKey neverRetryOptions noRandom)"
    using C2_classification[where e = unavailable and code = "''503''"
        and options = neverRetryOptions and fn = resetThenInvalidKey
        and t = "Err (ErrorObj 1 ''read ECONNRESET'')" and rnd = noRandom and k = 1]
      reached retryable quiet
    by (simp add: resetThenInvalidKey_def)
  have second: "invocations (withRetry resetThenInvalidKey neverRetryOptions noRandom) = 2 \<and>
   result (withRetry resetThenInvalidKey neverRetryOptions noRandom) =
     Inl (Err (ErrorObj 2 ''Invalid API key''))"
    using C2_classification[where e = unavailable and code = "''503''"
        and options = neverRetryOptions and fn = resetThenInvalidKey
        and t = "Err (ErrorObj 2 ''Invalid API key'')" and rnd = noRandom and k = 2]
      two fatal
    by (simp add: resetThenInvalidKey_def)
  show ?thesis using first second by simp
qed









text \<open>
  Claim C7 as the spec states it does not hold: \<open>onRetry\<close> is called outside any
  \<open>try\<close>, so an exception it raises leaves \<open>withRetry\<close> at once. The operation is
  invoked once instead of three times, and the callback's exception is what propagates.
\<close>

theorem C7_counterexample:
  "result (withRetry serverError throwingOptions noRandom) =
     Inl (Err (ErrorObj 99 ''metrics sink closed'')) \<and>
   invocations (withRetry serverError throwingOptions noRandom) = 1"
  by (simp add: withRetry_def resolve_def orElse_def retryLoop.simps isRetriableError_def
      throwingOptions_def threeAttempts_def noOptions_def serverError_def throwingCallback_def)

text \<open>
  Claim C7, amended. When \<open>onRetry\<close> returns normally, it is called exactly once for
  each attempt that is followed by another one, with that attempt's number and error, in
  order; the last attempt, whether it succeeds or fails, has no call, and the result of
  \<open>withRetry\<close> is the last invocation's own value or error. When a call of \<open>onRetry\<close>
  throws, \<open>withRetry\<close> rejects with that exception and invokes the operation no more.
\<close>

theorem C7_onRetry_calls:
  "((\<forall>k err. onRetry (resolve options) k err = None) \<longrightarrow>
      list_all2 (callOf fn) (onRetryCalls (withRetry fn options rnd))
        [1 .. int (invocations (withRetry fn options rnd)) - 1] \<and>
      (1 \<le> maxAttempts (resolve options) \<longrightarrow>
         result (withRetry fn options rnd) =
           (case fn (invocations (withRetry fn options rnd)) of
              Inr v \<Rightarrow> Inr v | Inl t \<Rightarrow> Inl (Err (toError t))))) \<and>
   ((k, err) \<in> set (onRetryCalls (withRetry fn options rnd)) \<and>
    onRetry (resolve options) k err = Some t' \<longrightarrow>
      result (withRetry fn options rnd) = Inl t' \<and>
      int (invocations (withRetry fn options rnd)) = k)"
proof (intro conjI impI)
  assume nothrow: "\<forall>k err. onRetry (resolve options) k err = None"
  show "list_all2 (callOf fn) (onRetryCalls (withRetry fn options rnd))
        [1 .. int (invocations (withRetry fn options rnd)) - 1]"
    using retryLoop_calls[OF nothrow, of fn rnd 1 None] by (simp add: withRetry_def)
  assume "1 \<le> maxAttempts (resolve options)"
  then show "result (withRetry fn options rnd) =
           (case fn (invocations (withRetry fn options rnd)) of
              Inr v \<Rightarrow> Inr v | Inl t \<Rightarrow> Inl (Err (toError t)))"
    using retryLoop_result[OF nothrow, of 1 fn rnd None] by (simp add: withRetry_def)
next
  assume a: "(k, err) \<in> set (onRetryCalls (withRetry fn options rnd)) \<and>
    onRetry (resolve options) k err = Some t'"
  then show "result (withRetry fn options rnd) = Inl t'"
    using retryLoop_throwing_call[of k err fn "resolve options" rnd 1 None t']
    by (simp add: withRetry_def)
  from a show "int (invocations (withRetry fn options rnd)) = k"
    using retryLoop_throwing_call[of k err fn "resolve options" rnd 1 None t']
    by (simp add: withRetry_def)
qed

text \<open>
  Three failing attempts with a quiet callback, and the same run with a throwing one.
\<close>

theorem C7_onRetry_calls_witness:
  "list_all2 (callOf serverError) (onRetryCalls (withRetry serverError threeAttempts noRandom))
     [1 .. 2] \<and>
   result (withRetry serverError threeAttempts noRandom) =
     Inl (Err (ErrorObj 3 ''API error 503: Service Unavailable'')) \<and>
   result (withRetry serverError throwingOptions noRandom) =
     Inl (Err (ErrorObj 99 ''metrics sink closed''))"
proof -
  have three: "invocations (withRetry serverError threeAttempts noRandom) = 3"
    by (simp add: withRetry_def resolve_def orElse_def retryLoop.simps isRetriableError_def
      settle_def retried_def threeAttempts_def noOptions_def serverError_def)
  have quiet: "\<forall>k err. onRetry (resolve threeAttempts) k err = None"
    by (simp add: resolve_def orElse_def threeAttempts_def noOptions_def)
  have attempts: "1 \<le> maxAttempts (resolve threeAttempts)"
    by (simp add: resolve_def orElse_def threeAttempts_def noOptions_def)
  have call: "(1, ErrorObj 1 ''API error 503: Service Unavailable'')
      \<in> set (onRetryCalls (withRetry serverError throwingOptions noRandom))"
    by (simp add: withRetry_def resolve_def orElse_def retryLoop.simps isRetriableError_def
      throwingOptions_def threeAttempts_def noOptions_def serverError_def throwingCallback_def)
  have thrown: "onRetry (resolve throwingOptions) 1 (ErrorObj 1 ''API error 503: Service Unavailable'')
      = Some (Err (ErrorObj 99 ''metrics sink closed''))"
    by (simp add: resolve_def orElse_def throwingOptions_def threeAttempts_def noOptions_def
      throwingCallback_def)
  show ?thesis
    using C7_onRetry_calls[where options = threeAttempts and fn = serverError and rnd = noRandom
        and k = 1 and err = "ErrorObj 1 ''API error 503: Service Unavailable''"
        and t' = "Err (ErrorObj 99 ''metrics sink closed'')"]
      C7_onRetry_calls[where options = throwingOptions and fn = serverError and rnd = noRandom
        and k = 1 and err = "ErrorObj 1 ''API error 503: Service Unavailable''"
        and t' = "Err (ErrorObj 99 ''metrics sink closed'')"]
      three quiet attempts call thrown
    by (simp add: serverError_def)
qed


section \<open>Properties of the memory store\<close>

lemma limit_take: "0 \<le> n \<Longrightarrow> limit n xs = take (nat n) xs"
  by (simp add: limit_def)

lemma set_usersQuery: "set (usersQuery rows) = {u. \<exists>r \<in> set rows. user_id r = Some u}"
  by (auto simp: usersQuery_def List.map_filter_def image_iff) (metis option.sel)+

lemma length_filter_sort_key: "length (filter P (sort_key f xs)) = length (filter P xs)"
  by (simp add: filter_sort)

text \<open>Deleting the first \<open>k\<close> rows of a sorted copy, by key \<open>g\<close>, leaves at most the rest.\<close>

lemma length_filter_not_taken:
  assumes "k \<le> length xs"
  shows "length (filter (\<lambda>r. g r \<notin> set (map g (take k (sort_key f xs)))) xs) \<le> length xs - k"
proof -
  let ?s = "sort_key f xs"
  let ?P = "\<lambda>r. g r \<notin> set (map g (take k ?s))"
  have "length (filter ?P xs) = length (filter ?P ?s)"
    by (simp add: length_filter_sort_key)
  also have "\<dots> = length (filter ?P (take k ?s)) + length (filter ?P (drop k ?s))"
    by (metis append_take_drop_id filter_append length_append)
  also have "filter ?P (take k ?s) = []"
    by (auto simp: filter_empty_conv)
  also have "length (filter ?P (drop k ?s)) \<le> length (drop k ?s)"
    by (rule length_filter_le)
  finally show ?thesis by simp
qed

lemma filter_user_excessStmt:
  "filter (\<lambda>r. user_id r = Some uid) (excessStmt uid excess rows) =
   filter (\<lambda>r. rowid r \<notin> set (map rowid (excessVictims uid excess rows)))
     (filter (\<lambda>r. user_id r = Some uid) rows)"
  by (simp add: excessStmt_def conj_commute)

lemma countStmt_excessStmt:
  assumes "0 \<le> excess" and "excess \<le> countStmt uid rows"
  shows "countStmt uid (excessStmt uid excess rows) \<le> countStmt uid rows - excess"
proof -
  let ?xs = "filter (\<lambda>r. user_id r = Some uid) rows"
  have k: "nat excess \<le> length ?xs"
    using assms by (simp add: countStmt_def)
  have "length (filter (\<lambda>r. rowid r \<notin> set (map rowid (take (nat excess) (orderAsc ?xs)))) ?xs)
      \<le> length ?xs - nat excess"
    unfolding orderAsc_def by (rule length_filter_not_taken[OF k])
  then show ?thesis
    using assms
    by (simp add: countStmt_def filter_user_excessStmt excessVictims_def limit_take)
qed

lemma countStmt_filter_le: "countStmt uid (filter P rows) \<le> countStmt uid rows"
proof -
  have "filter (\<lambda>r. user_id r = Some uid) (filter P rows) =
      filter P (filter (\<lambda>r. user_id r = Some uid) rows)"
    by (simp add: conj_commute)
  then have "length (filter (\<lambda>r. user_id r = Some uid) (filter P rows)) \<le>
      length (filter (\<lambda>r. user_id r = Some uid) rows)"
    by (metis length_filter_le)
  then show ?thesis by (simp only: countStmt_def of_nat_le_iff)
qed

lemma countStmt_sweepUser:
  assumes "0 \<le> maxMemoriesPerUser cfg"
  shows "countStmt uid (sweepUser cfg ts uid rows) \<le> maxMemoriesPerUser cfg"
proof -
  let ?aged = "oldMemoriesStmt uid ts (minImportance cfg) rows"
  show ?thesis
  proof (cases "countStmt uid ?aged > maxMemoriesPerUser cfg")
    case True
    then have "countStmt uid (excessStmt uid (countStmt uid ?aged - maxMemoriesPerUser cfg) ?aged)
        \<le> countStmt uid ?aged - (countStmt uid ?aged - maxMemoriesPerUser cfg)"
      using assms by (intro countStmt_excessStmt) simp_all
    then show ?thesis using True by (simp add: sweepUser_def Let_def)
  next
    case False
    then show ?thesis by (simp add: sweepUser_def Let_def)
  qed
qed

lemma sweepUser_is_filter: "\<exists>P. sweepUser cfg ts uid rows = filter P rows"
proof -
  let ?A = "\<lambda>r. \<not> (user_id r = Some uid \<and> created_at r < ts \<and> importance r < minImportance cfg)"
  have aged: "oldMemoriesStmt uid ts (minImportance cfg) rows = filter ?A rows"
    by (simp add: oldMemoriesStmt_def)
  show ?thesis
  proof (cases "countStmt uid (filter ?A rows) > maxMemoriesPerUser cfg")
    case True
    then have "sweepUser cfg ts uid rows =
        filter (\<lambda>r. ?A r \<and> rowid r \<notin> set (map rowid (excessVictims uid
          (countStmt uid (filter ?A rows) - maxMemoriesPerUser cfg) (filter ?A rows)))) rows"
      by (simp add: sweepUser_def Let_def aged excessStmt_def)
    then show ?thesis by blast
  next
    case False
    then have "sweepUser cfg ts uid rows = filter ?A rows"
      by (simp add: sweepUser_def Let_def aged)
    then show ?thesis by blast
  qed
qed

lemma sweepLoop_is_filter: "\<exists>P. sweepLoop cfg ts target users rows = filter P rows"
proof (induction users arbitrary: rows)
  case Nil
  have "sweepLoop cfg ts target [] rows = filter (\<lambda>r. True) rows"
    by (simp add: sweepLoop_def)
  then show ?case by blast
next
  case (Cons u users)
  obtain Q where Q: "(if skipped target u then rows else sweepUser cfg ts u rows) = filter Q rows"
  proof (cases "skipped target u")
    case True
    then have "(if skipped target u then rows else sweepUser cfg ts u rows) = filter (\<lambda>r. True) rows"
      by simp
    then show ?thesis by (rule that)
  next
    case False
    then show ?thesis using sweepUser_is_filter[of cfg ts u rows] that by auto
  qed
  obtain P where P: "sweepLoop cfg ts target users (filter Q rows) = filter P (filter Q rows)"
    using Cons.IH by blast
  have "sweepLoop cfg ts target (u # users) rows = filter (\<lambda>r. Q r \<and> P r) rows"
    using P Q by (simp add: sweepLoop_def)
  then show ?case by blast
qed

lemma sweepLoop_Cons:
  "sweepLoop cfg ts target (u # users) rows =
     sweepLoop cfg ts target users (if skipped target u then rows else sweepUser cfg ts u rows)"
  by (simp add: sweepLoop_def)

lemma sweepLoop_count:
  assumes "0 \<le> maxMemoriesPerUser cfg" and "\<not> skipped target uid"
  shows "uid \<in> set users \<or> countStmt uid rows \<le> maxMemoriesPerUser cfg \<Longrightarrow>
         countStmt uid (sweepLoop cfg ts target users rows) \<le> maxMemoriesPerUser cfg"
proof (induction users arbitrary: rows)
  case Nil
  then show ?case by (simp add: sweepLoop_def)
next
  case (Cons u users)
  let ?next = "if skipped target u then rows else sweepUser cfg ts u rows"
  have "uid \<in> set users \<or> countStmt uid ?next \<le> maxMemoriesPerUser cfg"
  proof (cases "u = uid")
    case True
    then show ?thesis using assms countStmt_sweepUser[of cfg uid ts rows] by simp
  next
    case False
    obtain P where "?next = filter P rows"
      using sweepUser_is_filter[of cfg ts u rows] by (cases "skipped target u") (auto intro: that[of "\<lambda>r. True"])
    then have "countStmt uid ?next \<le> countStmt uid rows"
      using countStmt_filter_le[of uid P rows] by simp
    then show ?thesis using Cons.prems False by auto
  qed
  then show ?case
    unfolding sweepLoop_Cons by (rule Cons.IH)
qed

lemma sweepUser_subset_aged:
  "set (sweepUser cfg ts uid rows) \<subseteq> set (oldMemoriesStmt uid ts (minImportance cfg) rows)"
  by (auto simp: sweepUser_def Let_def excessStmt_def)

lemma sweepLoop_no_expired:
  assumes "\<not> skipped target uid"
  shows "uid \<in> set users \<or>
           (\<forall>r \<in> set rows. user_id r = Some uid \<longrightarrow>
              \<not> (created_at r < ts \<and> importance r < minImportance cfg)) \<Longrightarrow>
         \<forall>r \<in> set (sweepLoop cfg ts target users rows). user_id r = Some uid \<longrightarrow>
              \<not> (created_at r < ts \<and> importance r < minImportance cfg)"
proof (induction users arbitrary: rows)
  case Nil
  then show ?case by (simp add: sweepLoop_def)
next
  case (Cons u users)
  let ?next = "if skipped target u then rows else sweepUser cfg ts u rows"
  have "uid \<in> set users \<or>
      (\<forall>r \<in> set ?next. user_id r = Some uid \<longrightarrow>
         \<not> (created_at r < ts \<and> importance r < minImportance cfg))"
  proof (cases "u = uid")
    case True
    then show ?thesis
      using assms sweepUser_subset_aged[of cfg ts uid rows]
      by (auto simp: oldMemoriesStmt_def)
  next
    case False
    obtain P where "?next = filter P rows"
      using sweepUser_is_filter[of cfg ts u rows] by (cases "skipped target u") (auto intro: that[of "\<lambda>r. True"])
    then have "set ?next \<subseteq> set rows" by auto
    then show ?thesis using Cons.prems False by auto
  qed
  then show ?case
    unfolding sweepLoop_Cons by (rule Cons.IH)
qed

lemma not_user_countStmt: "uid \<notin> set (usersQuery rows) \<Longrightarrow> countStmt uid rows = 0"
  by (auto simp: set_usersQuery countStmt_def filter_empty_conv)

lemma set_limit_subset: "set (limit n xs) \<subseteq> set xs"
  by (auto simp: limit_def dest: in_set_takeD)

lemma excessVictims_subset:
  "set (excessVictims uid excess rows) \<subseteq> {r \<in> set rows. user_id r = Some uid}"
  using set_limit_subset[of excess "orderAsc (filter (\<lambda>r. user_id r = Some uid) rows)"]
  by (auto simp: excessVictims_def orderAsc_def)

text \<open>With distinct rowids, deleting by rowid deletes exactly the selected rows.\<close>

lemma excessStmt_exact:
  assumes "distinct (map rowid rows)"
  shows "excessStmt uid excess rows =
     filter (\<lambda>r. r \<notin> set (excessVictims uid excess rows)) rows"
proof -
  have inj: "inj_on rowid (set rows)"
    using assms by (simp add: distinct_map)
  have "\<And>r. r \<in> set rows \<Longrightarrow>
      (rowid r \<notin> set (map rowid (excessVictims uid excess rows))) =
      (r \<notin> set (excessVictims uid excess rows))"
  proof -
    fix r assume r: "r \<in> set rows"
    show "(rowid r \<notin> set (map rowid (excessVictims uid excess rows))) =
      (r \<notin> set (excessVictims uid excess rows))"
    proof
      assume "rowid r \<notin> set (map rowid (excessVictims uid excess rows))"
      then show "r \<notin> set (excessVictims uid excess rows)" by auto
    next
      assume notin: "r \<notin> set (excessVictims uid excess rows)"
      show "rowid r \<notin> set (map rowid (excessVictims uid excess rows))"
      proof
        assume "rowid r \<in> set (map rowid (excessVictims uid excess rows))"
        then obtain v where v: "v \<in> set (excessVictims uid excess rows)" "rowid v = rowid r"
          by auto
        then have "v \<in> set rows" using excessVictims_subset[of uid excess rows] by auto
        then have "v = r" using inj r v(2) by (auto dest: inj_onD)
        then show False using v(1) notin by simp
      qed
    qed
  qed
  then show ?thesis
    unfolding excessStmt_def by (intro filter_cong) auto
qed

lemma sweepUser_others:
  assumes "distinct (map rowid rows)"
  shows "filter (\<lambda>r. user_id r \<noteq> Some uid) (sweepUser cfg ts uid rows) =
         filter (\<lambda>r. user_id r \<noteq> Some uid) rows"
proof -
  let ?aged = "oldMemoriesStmt uid ts (minImportance cfg) rows"
  have aged: "filter (\<lambda>r. user_id r \<noteq> Some uid) ?aged = filter (\<lambda>r. user_id r \<noteq> Some uid) rows"
    unfolding oldMemoriesStmt_def filter_filter by (intro filter_cong) auto
  have d: "distinct (map rowid ?aged)"
    using assms by (simp add: oldMemoriesStmt_def distinct_map_filter)
  have "filter (\<lambda>r. user_id r \<noteq> Some uid) (excessStmt uid e ?aged) =
      filter (\<lambda>r. user_id r \<noteq> Some uid) ?aged" for e
    unfolding excessStmt_exact[OF d] filter_filter
    using excessVictims_subset[of uid e ?aged] by (intro filter_cong) auto
  then show ?thesis
    using aged by (simp add: sweepUser_def Let_def)
qed

lemma sweepUser_distinct:
  "distinct (map rowid rows) \<Longrightarrow> distinct (map rowid (sweepUser cfg ts uid rows))"
  using sweepUser_is_filter[of cfg ts uid rows] by (auto simp: distinct_map_filter)

lemma sweepLoop_unscoped:
  "distinct (map rowid rows) \<Longrightarrow>
   filter (\<lambda>r. user_id r = None) (sweepLoop cfg ts target users rows) =
   filter (\<lambda>r. user_id r = None) rows"
proof (induction users arbitrary: rows)
  case Nil
  then show ?case by (simp add: sweepLoop_def)
next
  case (Cons u users)
  let ?next = "if skipped target u then rows else sweepUser cfg ts u rows"
  have d: "distinct (map rowid ?next)"
    using Cons.prems by (simp add: sweepUser_distinct)
  have "filter (\<lambda>r. user_id r = None) (sweepUser cfg ts u rows) =
      filter (\<lambda>r. user_id r = None) (filter (\<lambda>r. user_id r \<noteq> Some u) (sweepUser cfg ts u rows))"
    unfolding filter_filter by (intro filter_cong) auto
  also have "\<dots> = filter (\<lambda>r. user_id r = None) (filter (\<lambda>r. user_id r \<noteq> Some u) rows)"
    by (simp only: sweepUser_others[OF Cons.prems])
  also have "\<dots> = filter (\<lambda>r. user_id r = None) rows"
    unfolding filter_filter by (intro filter_cong) auto
  finally have "filter (\<lambda>r. user_id r = None) ?next = filter (\<lambda>r. user_id r = None) rows"
    by simp
  then show ?case
    unfolding sweepLoop_Cons using Cons.IH[OF d] by simp
qed

text \<open>
  A user within capacity loses nothing to the capacity pass, so the user's facts of
  importance at least \<open>minImportance\<close> outlive the whole sweep.
\<close>

lemma sweepUser_within_capacity:
  assumes "countStmt uid rows \<le> maxMemoriesPerUser cfg"
  shows "sweepUser cfg ts uid rows = oldMemoriesStmt uid ts (minImportance cfg) rows"
proof -
  have "countStmt uid (oldMemoriesStmt uid ts (minImportance cfg) rows) \<le> countStmt uid rows"
    unfolding oldMemoriesStmt_def by (rule countStmt_filter_le)
  then show ?thesis using assms by (simp add: sweepUser_def Let_def)
qed

lemma sweepLoop_keeps_important:
  assumes "user_id r = Some uid" and "minImportance cfg \<le> importance r"
  shows "distinct (map rowid rows) \<Longrightarrow> r \<in> set rows \<Longrightarrow>
         countStmt uid rows \<le> maxMemoriesPerUser cfg \<Longrightarrow>
         r \<in> set (sweepLoop cfg ts target users rows)"
proof (induction users arbitrary: rows)
  case Nil
  then show ?case by (simp add: sweepLoop_def)
next
  case (Cons u users)
  let ?next = "if skipped target u then rows else sweepUser cfg ts u rows"
  have d: "distinct (map rowid ?next)"
    using Cons.prems(1) by (simp add: sweepUser_distinct)
  obtain P where P: "?next = filter P rows"
    using sweepUser_is_filter[of cfg ts u rows]
    by (cases "skipped target u") (auto intro: that[of "\<lambda>r. True"])
  have c: "countStmt uid ?next \<le> maxMemoriesPerUser cfg"
    using countStmt_filter_le[of uid P rows] Cons.prems(3) P by simp
  have "r \<in> set (sweepUser cfg ts u rows)"
  proof (cases "u = uid")
    case True
    then have "sweepUser cfg ts u rows = oldMemoriesStmt uid ts (minImportance cfg) rows"
      using Cons.prems(3) by (simp add: sweepUser_within_capacity)
    then show ?thesis
      using Cons.prems(2) assms(2) by (simp add: oldMemoriesStmt_def)
  next
    case False
    then have "r \<in> set (filter (\<lambda>x. user_id x \<noteq> Some u) rows)"
      using Cons.prems(2) assms(1) by simp
    then have "r \<in> set (filter (\<lambda>x. user_id x \<noteq> Some u) (sweepUser cfg ts u rows))"
      by (simp only: sweepUser_others[OF Cons.prems(1)])
    then show ?thesis by simp
  qed
  then have "r \<in> set ?next" using Cons.prems(2) by simp
  then show ?case
    unfolding sweepLoop_Cons using Cons.IH[OF d _ c] by simp
qed

text \<open>
  Claim C1. With retention enabled and a capacity that is not negative, after a sweep that
  covers user \<open>uid\<close> (no target user, or \<open>uid\<close> itself) the user has at most
  \<open>maxMemoriesPerUser\<close> facts, and none of them is both older than \<open>maxAgeDays\<close> and
  below \<open>minImportance\<close>. The age pass keeps every fact whose importance is at least
  \<open>minImportance\<close>, whatever its age; so when the user is within capacity, every such
  fact of the user is still there after the whole sweep.
\<close>

theorem C1_retention_invariant:
  assumes "enabled (expiryConfig st)"
    and "0 \<le> maxMemoriesPerUser (expiryConfig st)"
    and "\<not> skipped target uid"
  shows "countStmt uid (memories (cleanupExpiredMemories st target nowMs))
           \<le> maxMemoriesPerUser (expiryConfig st) \<and>
         (\<forall>r \<in> set (memories (cleanupExpiredMemories st target nowMs)).
            user_id r = Some uid \<longrightarrow>
              \<not> (created_at r < nowMs div 1000 - maxAgeDays (expiryConfig st) * 86400 \<and>
                 importance r < minImportance (expiryConfig st))) \<and>
         (\<forall>r \<in> set rows. minImportance (expiryConfig st) \<le> importance r \<longrightarrow>
            r \<in> set (oldMemoriesStmt uid' ts (minImportance (expiryConfig st)) rows)) \<and>
         int (length (filter (\<lambda>r. user_id r = Some uid)
                (memories (cleanupExpiredMemories st target nowMs))))
           \<le> maxMemoriesPerUser (expiryConfig st) \<and>
         (\<forall>r \<in> set (memories st).
            distinct (map rowid (memories st)) \<and> user_id r = Some uid \<and>
            minImportance (expiryConfig st) \<le> importance r \<and>
            countStmt uid (memories st) \<le> maxMemoriesPerUser (expiryConfig st) \<longrightarrow>
              r \<in> set (memories (cleanupExpiredMemories st target nowMs)))"
proof (intro conjI)
  let ?cfg = "expiryConfig st"
  let ?ts = "nowMs div 1000 - maxAgeDays ?cfg * 86400"
  have mem: "memories (cleanupExpiredMemories st target nowMs) =
      sweepLoop ?cfg ?ts target (usersQuery (memories st)) (memories st)"
    using assms(1) by (simp add: cleanupExpiredMemories_def Let_def)
  have "uid \<in> set (usersQuery (memories st)) \<or> countStmt uid (memories st) \<le> maxMemoriesPerUser ?cfg"
  proof (cases "uid \<in> set (usersQuery (memories st))")
    case True
    then show ?thesis by simp
  next
    case False
    then have "countStmt uid (memories st) = 0" by (rule not_user_countStmt)
    then show ?thesis using assms(2) by simp
  qed
  then show bound: "countStmt uid (memories (cleanupExpiredMemories st target nowMs))
           \<le> maxMemoriesPerUser ?cfg"
    unfolding mem by (rule sweepLoop_count[OF assms(2,3)])
  have "uid \<in> set (usersQuery (memories st)) \<or>
      (\<forall>r \<in> set (memories st). user_id r = Some uid \<longrightarrow>
         \<not> (created_at r < ?ts \<and> importance r < minImportance ?cfg))"
    by (auto simp: set_usersQuery)
  then show "\<forall>r \<in> set (memories (cleanupExpiredMemories st target nowMs)).
            user_id r = Some uid \<longrightarrow>
              \<not> (created_at r < ?ts \<and> importance r < minImportance ?cfg)"
    unfolding mem by (rule sweepLoop_no_expired[OF assms(3)])
  show "\<forall>r \<in> set rows. minImportance ?cfg \<le> importance r \<longrightarrow>
            r \<in> set (oldMemoriesStmt uid' ts (minImportance ?cfg) rows)"
    by (auto simp: oldMemoriesStmt_def)
  show "int (length (filter (\<lambda>r. user_id r = Some uid)
                (memories (cleanupExpiredMemories st target nowMs))))
           \<le> maxMemoriesPerUser ?cfg"
    using bound by (simp only: countStmt_def)
  show "\<forall>r \<in> set (memories st).
            distinct (map rowid (memories st)) \<and> user_id r = Some uid \<and>
            minImportance ?cfg \<le> importance r \<and>
            countStmt uid (memories st) \<le> maxMemoriesPerUser ?cfg \<longrightarrow>
              r \<in> set (memories (cleanupExpiredMemories st target nowMs))"
    unfolding mem using sweepLoop_keeps_important[of _ uid ?cfg "memories st"] by blast
qed

text \<open>
  The sweep of the example store: Alice keeps two facts, none of them expired, and her old
  fact of importance 2 passes the age pass; alone with Bob's fact, it outlives the sweep.
\<close>

theorem C1_retention_invariant_witness:
  "countStmt ''alice'' (memories (cleanupExpiredMemories exampleStore None exampleNow)) \<le> 2 \<and>
   filter (\<lambda>r. user_id r = Some ''alice'' \<and> created_at r < 1692224000 \<and> importance r < 3 / 10)
     (memories (cleanupExpiredMemories exampleStore None exampleNow)) = [] \<and>
   exampleRows ! 1 \<in> set (oldMemoriesStmt ''alice'' 1692224000 (3 / 10) exampleRows) \<and>
   exampleRows ! 1 \<in> set (memories (cleanupExpiredMemories twoFacts None exampleNow))"
proof -
  have cfg: "expiryConfig exampleStore = exampleConfig" "expiryConfig twoFacts = exampleConfig"
    by (simp_all add: exampleStore_def twoFacts_def)
  have hyps: "enabled (expiryConfig exampleStore)" "0 \<le> maxMemoriesPerUser (expiryConfig exampleStore)"
    "\<not> skipped None ''alice''"
    by (simp_all add: cfg exampleConfig_def skipped_def)
  have hyps2: "enabled (expiryConfig twoFacts)" "0 \<le> maxMemoriesPerUser (expiryConfig twoFacts)"
    by (simp_all add: cfg exampleConfig_def)
  have old: "exampleRows ! 1 \<in> set exampleRows" "minImportance exampleConfig \<le> importance (exampleRows ! 1)"
    by (simp_all add: exampleRows_def exampleConfig_def fact_def)
  have first: "countStmt ''alice'' (memories (cleanupExpiredMemories exampleStore None exampleNow)) \<le> 2 \<and>
   filter (\<lambda>r. user_id r = Some ''alice'' \<and> created_at r < 1692224000 \<and> importance r < 3 / 10)
     (memories (cleanupExpiredMemories exampleStore None exampleNow)) = [] \<and>
   exampleRows ! 1 \<in> set (oldMemoriesStmt ''alice'' 1692224000 (3 / 10) exampleRows)"
    using C1_retention_invariant[OF hyps, where nowMs = exampleNow and rows = exampleRows
        and uid' = "''alice''" and ts = 1692224000] old
    by (auto simp: cfg exampleConfig_def exampleNow_def filter_empty_conv)
  have two: "exampleRows ! 1 \<in> set (memories twoFacts)"
    "distinct (map rowid (memories twoFacts))" "user_id (exampleRows ! 1) = Some ''alice''"
    "countStmt ''alice'' (memories twoFacts) \<le> maxMemoriesPerUser (expiryConfig twoFacts)"
    by (simp_all add: twoFacts_def exampleRows_def fact_def countStmt_def cfg exampleConfig_def)
  have second: "exampleRows ! 1 \<in> set (memories (cleanupExpiredMemories twoFacts None exampleNow))"
    using C1_retention_invariant[OF hyps2 hyps(3), where nowMs = exampleNow,
        THEN conjunct2, THEN conjunct2, THEN conjunct2, THEN conjunct2, THEN bspec, OF two(1)]
      two(2,3,4) old(2)
    by (simp add: cfg)
  show ?thesis using first second by simp
qed

text \<open>
  Claim C10. The facts without a user (\<open>user_id\<close> null) are the same rows, in the same
  order and with the same contents, before and after any sweep. Rowids are the table's
  key, hence distinct.
\<close>

theorem C10_unscoped_facts_untouched:
  assumes "distinct (map rowid (memories st))"
  shows "filter (\<lambda>r. user_id r = None) (memories (cleanupExpiredMemories st target nowMs)) =
         filter (\<lambda>r. user_id r = None) (memories st)"
  using sweepLoop_unscoped[OF assms]
  by (simp add: cleanupExpiredMemories_def Let_def)

text \<open>
  The old, unimportant session fact of the example store survives its sweep unchanged.
\<close>

theorem C10_unscoped_facts_untouched_witness:
  "filter (\<lambda>r. user_id r = None) (memories (cleanupExpiredMemories exampleStore None exampleNow)) =
     [fact 5 ''m5'' (Some ''s1'') None (1 / 10) 1600000000 1600000000]"
proof -
  have d: "distinct (map rowid (memories exampleStore))"
    by (simp add: exampleStore_def exampleRows_def fact_def)
  show ?thesis
    using C10_unscoped_facts_untouched[OF d, of None exampleNow]
    by (simp add: exampleStore_def exampleRows_def fact_def)
qed

lemma seven: "insertAndSweep capacityFive sevenFacts ''alice'' exampleNow =
   Inr [fact 3 ''f3'' None (Some ''alice'') 3 1700000000 1700000000,
        fact 4 ''f4'' None (Some ''alice'') 4 1700000000 1700000000,
        fact 5 ''f5'' None (Some ''alice'') 5 1700000000 1700000000,
        fact 6 ''f6'' None (Some ''alice'') 6 1700000000 1700000000,
        fact 7 ''f7'' None (Some ''alice'') 7 1700000000 1700000000]"
  by code_simp

text \<open>
  Claim C5 as the spec states it does not hold: the capacity pass orders by
  \<open>(importance, accessed_at)\<close> only and never looks at \<open>id\<close>. Two facts of equal
  importance inserted in the same second are evicted in table order: inserted as \<open>a\<close>,
  \<open>b\<close> the victim is \<open>a\<close>, inserted as \<open>b\<close>, \<open>a\<close> the victim is \<open>b\<close>. No tie-break
  by \<open>id\<close>, ascending or descending, picks both.
\<close>

theorem C5_counterexample:
  "insertAndSweep capacityOne [(''a'', 1), (''b'', 1)] ''alice'' exampleNow =
     Inr [fact 2 ''b'' None (Some ''alice'') 1 1700000000 1700000000] \<and>
   insertAndSweep capacityOne [(''b'', 1), (''a'', 1)] ''alice'' exampleNow =
     Inr [fact 2 ''a'' None (Some ''alice'') 1 1700000000 1700000000]"
  by code_simp

lemma orderAsc_sorted:
  "sorted (map (\<lambda>r. (importance r, accessed_at r)) (orderAsc xs))"
  by (simp add: orderAsc_def)

lemma taken_le_dropped:
  assumes "v \<in> set (take k (orderAsc xs))" and "s \<in> set (drop k (orderAsc xs))"
  shows "importance v < importance s \<or>
         (importance v = importance s \<and> accessed_at v \<le> accessed_at s)"
proof -
  let ?key = "\<lambda>r. (importance r, accessed_at r)"
  have "sorted (map ?key (take k (orderAsc xs)) @ map ?key (drop k (orderAsc xs)))"
    using orderAsc_sorted[of xs] by (simp flip: map_append)
  then have "?key v \<le> ?key s"
    using assms by (auto simp: sorted_append)
  then show ?thesis
    by (auto simp: less_eq_prod_def)
qed

lemma victims_le_survivors:
  assumes "0 \<le> excess"
    and "v \<in> set (excessVictims uid excess rows)"
    and "s \<in> set rows" and "user_id s = Some uid"
    and "s \<notin> set (excessVictims uid excess rows)"
  shows "importance v < importance s \<or>
         (importance v = importance s \<and> accessed_at v \<le> accessed_at s)"
proof -
  let ?xs = "filter (\<lambda>r. user_id r = Some uid) rows"
  have V: "excessVictims uid excess rows = take (nat excess) (orderAsc ?xs)"
    using assms(1) by (simp add: excessVictims_def limit_take)
  have "s \<in> set (orderAsc ?xs)"
    using assms(3,4) by (simp add: orderAsc_def)
  then have "s \<in> set (take (nat excess) (orderAsc ?xs)) \<union> set (drop (nat excess) (orderAsc ?xs))"
    by (metis append_take_drop_id set_append)
  then have "s \<in> set (drop (nat excess) (orderAsc ?xs))"
    using assms(5) V by simp
  then show ?thesis
    using assms(2) V taken_le_dropped[of v "nat excess" ?xs s] by simp
qed

lemma excessVictims_distinct:
  "distinct rows \<Longrightarrow> distinct (excessVictims uid excess rows)"
  by (simp add: excessVictims_def limit_def orderAsc_def)

lemma excessVictims_length:
  "0 \<le> excess \<Longrightarrow> excess \<le> countStmt uid rows \<Longrightarrow>
   int (length (excessVictims uid excess rows)) = excess"
  by (simp add: excessVictims_def limit_take orderAsc_def countStmt_def)

lemma countStmt_delete_victims:
  assumes "distinct rows" and "0 \<le> excess" and "excess \<le> countStmt uid rows"
  shows "countStmt uid (filter (\<lambda>r. r \<notin> set (excessVictims uid excess rows)) rows) =
         countStmt uid rows - excess"
proof -
  let ?xs = "filter (\<lambda>r. user_id r = Some uid) rows"
  let ?V = "excessVictims uid excess rows"
  have sub: "set ?V \<subseteq> set ?xs"
    using excessVictims_subset[of uid excess rows] by auto
  have dx: "distinct ?xs" using assms(1) by simp
  have "filter (\<lambda>r. user_id r = Some uid) (filter (\<lambda>r. r \<notin> set ?V) rows) =
      filter (\<lambda>r. r \<notin> set ?V) ?xs"
    by (simp add: conj_commute)
  then have "length (filter (\<lambda>r. user_id r = Some uid) (filter (\<lambda>r. r \<notin> set ?V) rows)) =
      card (set ?xs - set ?V)"
    using distinct_length_filter[OF dx, of "\<lambda>r. r \<notin> set ?V"]
    by (simp add: Diff_eq Int_commute Collect_neg_eq)
  also have "\<dots> = card (set ?xs) - card (set ?V)"
    using sub by (intro card_Diff_subset) auto
  also have "\<dots> = length ?xs - length ?V"
    using distinct_card[OF dx] distinct_card[OF excessVictims_distinct[OF assms(1), of uid excess]]
    by (simp only:)
  finally show ?thesis
    using excessVictims_length[OF assms(2,3)] assms(2,3)
    by (simp add: countStmt_def)
qed


text \<open>
  Claim C5, amended. When a user's facts left by the age pass exceed
  \<open>maxMemoriesPerUser\<close>, the capacity pass deletes exactly the surplus: the victims are
  that many distinct facts of the user, nothing else is deleted, the user ends with
  exactly \<open>maxMemoriesPerUser\<close> facts, and every victim is at most every surviving fact
  of the user in the order by \<open>(importance, accessed_at)\<close>. Ties in that order are left
  to the engine. Seven fresh facts of importance 1 to 7 under a capacity of five leave the
  facts of importance 3 to 7.
\<close>

theorem C5_capacity_pass:
  assumes "distinct (map rowid rows)"
    and "0 \<le> maxMemoriesPerUser cfg"
    and "aged = oldMemoriesStmt uid ts (minImportance cfg) rows"
    and "maxMemoriesPerUser cfg < countStmt uid aged"
    and "victims = excessVictims uid (countStmt uid aged - maxMemoriesPerUser cfg) aged"
  shows "sweepUser cfg ts uid rows = filter (\<lambda>r. r \<notin> set victims) aged \<and>
         set victims \<subseteq> {r \<in> set aged. user_id r = Some uid} \<and>
         distinct victims \<and>
         int (length victims) = countStmt uid aged - maxMemoriesPerUser cfg \<and>
         countStmt uid (sweepUser cfg ts uid rows) = maxMemoriesPerUser cfg \<and>
         (\<forall>v \<in> set victims. \<forall>s \<in> set (sweepUser cfg ts uid rows).
            user_id s = Some uid \<longrightarrow>
              importance v < importance s \<or>
              (importance v = importance s \<and> accessed_at v \<le> accessed_at s)) \<and>
         insertAndSweep capacityFive sevenFacts ''alice'' exampleNow =
           Inr [fact 3 ''f3'' None (Some ''alice'') 3 1700000000 1700000000,
                fact 4 ''f4'' None (Some ''alice'') 4 1700000000 1700000000,
                fact 5 ''f5'' None (Some ''alice'') 5 1700000000 1700000000,
                fact 6 ''f6'' None (Some ''alice'') 6 1700000000 1700000000,
                fact 7 ''f7'' None (Some ''alice'') 7 1700000000 1700000000]"
proof (intro conjI)
  let ?e = "countStmt uid aged - maxMemoriesPerUser cfg"
  have d: "distinct (map rowid aged)"
    using assms(1,3) by (simp add: oldMemoriesStmt_def distinct_map_filter)
  then have da: "distinct aged" by (simp add: distinct_map)
  have e: "0 \<le> ?e" "?e \<le> countStmt uid aged"
    using assms(2,4) by simp_all
  show sweep: "sweepUser cfg ts uid rows = filter (\<lambda>r. r \<notin> set victims) aged"
    using assms(3,4,5) excessStmt_exact[OF d, of uid ?e] by (simp add: sweepUser_def Let_def)
  show "set victims \<subseteq> {r \<in> set aged. user_id r = Some uid}"
    unfolding assms(5) by (rule excessVictims_subset)
  show "distinct victims"
    unfolding assms(5) using da by (rule excessVictims_distinct)
  show "int (length victims) = countStmt uid aged - maxMemoriesPerUser cfg"
    unfolding assms(5) using e by (rule excessVictims_length)
  show "countStmt uid (sweepUser cfg ts uid rows) = maxMemoriesPerUser cfg"
    unfolding sweep assms(5) using countStmt_delete_victims[OF da e] by simp
  show "\<forall>v \<in> set victims. \<forall>s \<in> set (sweepUser cfg ts uid rows).
            user_id s = Some uid \<longrightarrow>
              importance v < importance s \<or>
              (importance v = importance s \<and> accessed_at v \<le> accessed_at s)"
    unfolding sweep assms(5) using victims_le_survivors[OF e(1), of _ uid aged] by auto
  show "insertAndSweep capacityFive sevenFacts ''alice'' exampleNow =
           Inr [fact 3 ''f3'' None (Some ''alice'') 3 1700000000 1700000000,
                fact 4 ''f4'' None (Some ''alice'') 4 1700000000 1700000000,
                fact 5 ''f5'' None (Some ''alice'') 5 1700000000 1700000000,
                fact 6 ''f6'' None (Some ''alice'') 6 1700000000 1700000000,
                fact 7 ''f7'' None (Some ''alice'') 7 1700000000 1700000000]"
    by (rule seven)
qed

lemma example_aged:
  "oldMemoriesStmt ''alice'' 1692224000 (3 / 10) exampleRows = tl exampleRows"
  by code_simp

lemma example_victims:
  "excessVictims ''alice'' 1 (tl exampleRows) = [exampleRows ! 3]"
  by code_simp

text \<open>
  Alice's capacity pass in the example store: of her three facts left by the age pass,
  the one of importance one half goes.
\<close>

theorem C5_capacity_pass_witness:
  "sweepUser exampleConfig 1692224000 ''alice'' exampleRows =
     [exampleRows ! 1, exampleRows ! 2, exampleRows ! 4, exampleRows ! 5] \<and>
   countStmt ''alice'' (sweepUser exampleConfig 1692224000 ''alice'' exampleRows) = 2"
proof -
  have d: "distinct (map rowid exampleRows)"
    by (simp add: exampleRows_def fact_def)
  have cap: "0 \<le> maxMemoriesPerUser exampleConfig"
    by (simp add: exampleConfig_def)
  have over: "maxMemoriesPerUser exampleConfig <
      countStmt ''alice'' (oldMemoriesStmt ''alice'' 1692224000 (minImportance exampleConfig) exampleRows)"
    by (simp add: exampleConfig_def example_aged) (simp add: exampleRows_def fact_def countStmt_def)
  have excess: "countStmt ''alice'' (oldMemoriesStmt ''alice'' 1692224000 (minImportance exampleConfig) exampleRows)
      - maxMemoriesPerUser exampleConfig = 1"
    by (simp add: exampleConfig_def example_aged) (simp add: exampleRows_def fact_def countStmt_def)
  have kept: "filter (\<lambda>r. r \<noteq> exampleRows ! 3) (tl exampleRows) =
      [exampleRows ! 1, exampleRows ! 2, exampleRows ! 4, exampleRows ! 5]"
    by (simp add: exampleRows_def fact_def)
  note pass = C5_capacity_pass[OF d cap refl over refl]
  have "sweepUser exampleConfig 1692224000 ''alice'' exampleRows =
     [exampleRows ! 1, exampleRows ! 2, exampleRows ! 4, exampleRows ! 5]"
    using pass[THEN conjunct1]
    by (simp add: excess) (simp add: exampleConfig_def example_aged example_victims kept)
  moreover have "countStmt ''alice'' (sweepUser exampleConfig 1692224000 ''alice'' exampleRows) = 2"
    using pass[THEN conjunct2, THEN conjunct2, THEN conjunct2, THEN conjunct2, THEN conjunct1]
    by (simp add: exampleConfig_def)
  ultimately show ?thesis by simp
qed

lemma searchMemories_store: "snd (searchMemories st query sessionId maxRows) = st"
  by (simp add: searchMemories_def Let_def)

lemma updateMemoryAccess_ids: "map mem_id (updateMemoryAccess now ident rows) = map mem_id rows"
  by (simp add: updateMemoryAccess_def comp_def)

lemma fold_updateMemoryAccess:
  "distinct (map mem_id served) \<Longrightarrow>
   fold (\<lambda>row. updateMemoryAccess now (mem_id row)) served rows =
     map (\<lambda>r. if mem_id r \<in> set (map mem_id served) then accessed now r else r) rows"
proof (induction served arbitrary: rows)
  case Nil
  then show ?case by simp
next
  case (Cons s served)
  have "fold (\<lambda>row. updateMemoryAccess now (mem_id row)) (s # served) rows =
      map (\<lambda>r. if mem_id r \<in> set (map mem_id served) then accessed now r else r)
        (updateMemoryAccess now (mem_id s) rows)"
    using Cons by simp
  also have "\<dots> = map (\<lambda>r. if mem_id r \<in> set (map mem_id (s # served)) then accessed now r else r) rows"
    using Cons.prems by (auto simp: updateMemoryAccess_def accessed_def)
  finally show ?case .
qed

lemma distinct_ids_limit_orderDesc:
  "distinct (map mem_id rows) \<Longrightarrow> distinct (map mem_id (limit n (orderDesc (filter P rows))))"
proof -
  assume d: "distinct (map mem_id rows)"
  then have "distinct (map mem_id (filter P rows))" by (simp add: distinct_map_filter)
  then have "distinct (map mem_id (orderDesc (filter P rows)))"
    by (simp add: orderDesc_def distinct_map)
  then show ?thesis
    by (auto simp: limit_def distinct_map dest: in_set_takeD intro: inj_on_subset[OF _ set_take_subset])
qed

text \<open>
  \<open>getMemoriesByUser\<close> counts an access for every row it returns, and for no other.
\<close>

lemma getMemoriesByUser_counts:
  assumes "distinct (map mem_id (memories st))"
  shows "memories (snd (getMemoriesByUser st userId maxRows nowMs)) =
     map (\<lambda>r. if mem_id r \<in> set (map r_id (fst (getMemoriesByUser st userId maxRows nowMs)))
               then accessed (nowMs div 1000) r else r) (memories st)"
proof -
  let ?served = "limit maxRows (orderDesc (filter (\<lambda>r. user_id r = Some userId) (memories st)))"
  have ids: "map r_id (map mapMemoryRow ?served) = map mem_id ?served"
    by (simp add: mapMemoryRow_def comp_def)
  have "distinct (map mem_id ?served)"
    using assms by (rule distinct_ids_limit_orderDesc)
  then show ?thesis
    using fold_updateMemoryAccess[of ?served "nowMs div 1000" "memories st"]
    by (simp add: getMemoriesByUser_def Let_def ids del: map_map)
qed

text \<open>The sweep deletes rows and rewrites none.\<close>

lemma cleanupExpiredMemories_keeps_rows:
  "\<exists>P. memories (cleanupExpiredMemories st target nowMs) = filter P (memories st)"
proof (cases "enabled (expiryConfig st)")
  case True
  then show ?thesis
    using sweepLoop_is_filter by (simp add: cleanupExpiredMemories_def Let_def)
next
  case False
  then have "memories (cleanupExpiredMemories st target nowMs) = filter (\<lambda>r. True) (memories st)"
    by (simp add: cleanupExpiredMemories_def)
  then show ?thesis by blast
qed

text \<open>
  Claim C6 fails for \<open>searchMemories\<close>. On the example store a search with the empty
  query returns five facts and leaves the store as it was, every \<open>access_count\<close> still 0,
  whereas \<open>getMemoriesByUser\<close> counts one access for each of the four facts it returns.
\<close>

theorem C6_search_counts_no_access:
  "map r_id (fst (searchMemories exampleStore [] (Some ''alice'') 10)) =
     [''m2'', ''m3'', ''m4'', ''m6'', ''m1''] \<and>
   snd (searchMemories exampleStore [] (Some ''alice'') 10) = exampleStore \<and>
   map access_count (memories exampleStore) = [0, 0, 0, 0, 0, 0] \<and>
   map r_id (fst (getMemoriesByUser exampleStore ''alice'' 10 exampleNow)) =
     [''m2'', ''m3'', ''m4'', ''m1''] \<and>
   map access_count (memories (snd (getMemoriesByUser exampleStore ''alice'' 10 exampleNow))) =
     [1, 1, 1, 1, 0, 0]"
  by code_simp

lemma addMessage_sessions:
  "addMessage st msg sessionId freshId nowMs = Inr st' \<Longrightarrow> sessions st' = sessions st"
  by (auto simp: addMessage_def Let_def split: if_splits)

lemma addMessage_no_session:
  "sessionId \<notin> set (map s_id (sessions st)) \<Longrightarrow>
   isl (addMessage st msg sessionId freshId nowMs)"
  by (simp add: addMessage_def Let_def)

text \<open>
  Claim C8 fails for \<open>updatedAt\<close>. A message appended to an existing session 100 seconds
  after its creation is stored, and the session row keeps \<open>updated_at = 1700000000\<close>; a
  message for a session that does not exist is rejected by the foreign key.
\<close>

theorem C8_message_leaves_session:
  "createSession (emptyStore exampleConfig) ''s1'' ''alice'' None 1700000000000 = Inr oneSession \<and>
   addMessage oneSession helloMessage ''s1'' ''fresh'' 1700000100000 =
     Inr (oneSession \<lparr> messages := [helloRow] \<rparr>) \<and>
   map s_updated_at (sessions (oneSession \<lparr> messages := [helloRow] \<rparr>)) = [1700000000] \<and>
   addMessage oneSession helloMessage ''nosuch'' ''fresh'' 1700000100000 =
     Inl (sqliteError ''SQLITE_CONSTRAINT_FOREIGNKEY'')"
  by (simp add: createSession_def emptyStore_def oneSession_def addMessage_def helloMessage_def
      helloRow_def strOr_def strOrNull_def intOr_def Let_def)

section \<open>Properties of the tool calls of a turn\<close>

lemma execute_unknown:
  "tools name = None \<Longrightarrow> execute tools name params = Inl (toolNotFound name)"
  by (simp add: execute_def)

text \<open>A registered tool that raises is returned as a failed result carrying the reason.\<close>

lemma execute_raising_tool:
  "tools name = Some tool \<Longrightarrow> t_validateParams tool params = None \<Longrightarrow>
   t_execute tool params = Inl t \<Longrightarrow>
   execute tools name params =
     Inr \<lparr> success = False, data = None, error = Some (errorText t) \<rparr>"
  by (simp add: execute_def executeSafe_def)

lemma step_throws:
  assumes "a_sessionId ag \<in> set (map s_id (sessions st))"
    and "a_generateId ag (2 * k + 1) \<notin> set (map tc_id (tool_calls st))"
    and "execute (a_toolRegistry ag) (call_name c) (call_parameters c) = Inl t"
  shows "(case tryBlock ag k c st of Inl t \<Rightarrow> catchBlock ag k c t st | Inr done \<Rightarrow> Inr done) =
     Inr (\<lparr> o_toolName = call_name c, o_success = False, o_result = None,
            o_error = Some (errorText t) \<rparr>,
          st \<lparr> tool_calls := tool_calls st @ [failedRecord ag k c] \<rparr>)"
  using assms by (simp add: tryBlock_def catchBlock_def addToolCall_def failedRecord_def)

lemma step_returns:
  assumes "a_sessionId ag \<in> set (map s_id (sessions st))"
    and "a_generateId ag (2 * k) \<notin> set (map tc_id (tool_calls st))"
    and "execute (a_toolRegistry ag) (call_name c) (call_parameters c) = Inr r"
  shows "(case tryBlock ag k c st of Inl t \<Rightarrow> catchBlock ag k c t st | Inr done \<Rightarrow> Inr done) =
     Inr (\<lparr> o_toolName = call_name c, o_success = success r, o_result = data r,
            o_error = error r \<rparr>,
          st \<lparr> tool_calls := tool_calls st @ [returnedRecord ag k c r] \<rparr>)"
  using assms by (simp add: tryBlock_def addToolCall_def returnedRecord_def)

text \<open>
  A registered tool raises and another succeeds: the turn returns, its text has both
  outcomes, and the record of the tool that raised holds the failed result with the
  exception's message.
\<close>

lemma handleToolCalls_raising_tool:
  assumes "a_sessionId ag \<in> set (map s_id (sessions st))"
    and "\<forall>k. a_generateId ag k \<notin> set (map tc_id (tool_calls st))"
    and "inj (a_generateId ag)"
    and "resp_toolCalls response = Some [failing, working]"
    and "a_toolRegistry ag (call_name failing) = Some tool"
    and "t_validateParams tool (call_parameters failing) = None"
    and "t_execute tool (call_parameters failing) = Inl t"
    and "execute (a_toolRegistry ag) (call_name working) (call_parameters working) = Inr r"
    and "success r"
  shows "handleToolCalls ag st response =
     Inr (response \<lparr> resp_content :=
            (if resp_content response = [] then leadIn else resp_content response) @
            newline @ ''Tool '' @ call_name failing @ '' failed: '' @ errorText t @
            newline @
            newline @ ''Tool '' @ call_name working @ '' result: '' @ printed (data r) \<rparr>,
          st \<lparr> tool_calls := tool_calls st @
            [returnedRecord ag 0 failing
               \<lparr> success = False, data = None, error = Some (errorText t) \<rparr>,
             returnedRecord ag 1 working r] \<rparr>)"
proof -
  let ?failed = "\<lparr> success = False, data = None, error = Some (errorText t) \<rparr>"
  let ?st1 = "st \<lparr> tool_calls := tool_calls st @ [returnedRecord ag 0 failing ?failed] \<rparr>"
  have ne: "a_generateId ag i \<noteq> a_generateId ag j" if "i \<noteq> j" for i j
    using assms(3) that by (auto dest: injD)
  have fresh: "a_generateId ag i \<notin> set (map tc_id (tool_calls st))" for i
    using assms(2) by simp
  have ex: "execute (a_toolRegistry ag) (call_name failing) (call_parameters failing) = Inr ?failed"
    using assms(5,6,7) by (rule execute_raising_tool)
  have first: "(case tryBlock ag 0 failing st of Inl t \<Rightarrow> catchBlock ag 0 failing t st
      | Inr done \<Rightarrow> Inr done) =
      Inr (\<lparr> o_toolName = call_name failing, o_success = success ?failed,
             o_result = data ?failed, o_error = error ?failed \<rparr>, ?st1)"
    using assms(1) fresh[of "2 * 0"] ex by (intro step_returns) simp_all
  have second: "(case tryBlock ag (Suc 0) working ?st1 of
        Inl t \<Rightarrow> catchBlock ag (Suc 0) working t ?st1 | Inr done \<Rightarrow> Inr done) =
      Inr (\<lparr> o_toolName = call_name working, o_success = success r, o_result = data r,
             o_error = error r \<rparr>,
           ?st1 \<lparr> tool_calls := tool_calls ?st1 @ [returnedRecord ag (Suc 0) working r] \<rparr>)"
    using assms(1,8) fresh[of 2] ne[of 2 0]
    by (intro step_returns) (simp_all add: returnedRecord_def)
  show ?thesis
    using assms(4,9) first second
    by (simp add: handleToolCalls_def summaryLine_def printed_def)
qed

text \<open>
  A call of an unknown tool and a call that succeeds: the turn returns as well, but the
  record written by the \<open>catch\<close> block has no result.
\<close>

lemma handleToolCalls_unknown_tool:
  assumes "a_sessionId ag \<in> set (map s_id (sessions st))"
    and "\<forall>k. a_generateId ag k \<notin> set (map tc_id (tool_calls st))"
    and "inj (a_generateId ag)"
    and "resp_toolCalls response = Some [failing, working]"
    and "a_toolRegistry ag (call_name failing) = None"
    and "execute (a_toolRegistry ag) (call_name working) (call_parameters working) = Inr r"
    and "success r"
  shows "handleToolCalls ag st response =
     Inr (response \<lparr> resp_content :=
            (if resp_content response = [] then leadIn else resp_content response) @
            newline @ ''Tool '' @ call_name failing @ '' failed: '' @
            ''Tool not found: '' @ call_name failing @
            newline @
            newline @ ''Tool '' @ call_name working @ '' result: '' @ printed (data r) \<rparr>,
          st \<lparr> tool_calls := tool_calls st @
            [failedRecord ag 0 failing, returnedRecord ag 1 working r] \<rparr>)"
proof -
  let ?st1 = "st \<lparr> tool_calls := tool_calls st @ [failedRecord ag 0 failing] \<rparr>"
  have ne: "a_generateId ag i \<noteq> a_generateId ag j" if "i \<noteq> j" for i j
    using assms(3) that by (auto dest: injD)
  have fresh: "a_generateId ag i \<notin> set (map tc_id (tool_calls st))" for i
    using assms(2) by simp
  have ex: "execute (a_toolRegistry ag) (call_name failing) (call_parameters failing) =
      Inl (toolNotFound (call_name failing))"
    using assms(5) by (rule execute_unknown)
  have first: "(case tryBlock ag 0 failing st of Inl t \<Rightarrow> catchBlock ag 0 failing t st
      | Inr done \<Rightarrow> Inr done) =
      Inr (\<lparr> o_toolName = call_name failing, o_success = False, o_result = None,
             o_error = Some (errorText (toolNotFound (call_name failing))) \<rparr>, ?st1)"
    using assms(1) fresh[of "2 * 0 + 1"] ex by (intro step_throws) simp_all
  have second: "(case tryBlock ag (Suc 0) working ?st1 of
        Inl t \<Rightarrow> catchBlock ag (Suc 0) working t ?st1 | Inr done \<Rightarrow> Inr done) =
      Inr (\<lparr> o_toolName = call_name working, o_success = success r, o_result = data r,
             o_error = error r \<rparr>,
           ?st1 \<lparr> tool_calls := tool_calls ?st1 @ [returnedRecord ag (Suc 0) working r] \<rparr>)"
    using assms(1,6) fresh[of 2] ne[of 2 1]
    by (intro step_returns) (simp_all add: failedRecord_def)
  show ?thesis
    using assms(4,7) first second
    by (simp add: handleToolCalls_def summaryLine_def printed_def toolNotFound_def)
qed

text \<open>
  Claim C9 fails for a call of a tool the registry does not know. The turn still returns
  one response whose text has both outcomes, and two records are written; but the record
  of the failed call, written by the \<open>catch\<close> block, has \<open>success = false\<close> and no result, so
  it holds no error at all. The record of a registered tool that raises, written by the
  \<open>try\<close> block, does hold the failed result with its error (\<open>socket hang up\<close>).
\<close>

theorem C9_unknown_tool_record_has_no_error:
  "map tc_toolName (recordsOf (handleToolCalls exampleAgent oneSession twoCalls)) =
     [''ghost'', ''echo''] \<and>
   map tc_success (recordsOf (handleToolCalls exampleAgent oneSession twoCalls)) =
     [False, True] \<and>
   map tc_result (recordsOf (handleToolCalls exampleAgent oneSession twoCalls)) =
     [None, Some \<lparr> success = True, data = Some ''42'', error = None \<rparr>] \<and>
   contentOf (handleToolCalls exampleAgent oneSession twoCalls) =
     ''Working.'' @ newline @ ''Tool ghost failed: Tool not found: ghost'' @ newline @
     newline @ ''Tool echo result: 42'' \<and>
   map tc_result (recordsOf (handleToolCalls exampleAgent oneSession flakyCalls)) =
     [Some \<lparr> success = False, data = None, error = Some ''socket hang up'' \<rparr>,
      Some \<lparr> success = True, data = Some ''42'', error = None \<rparr>]"
  by code_simp

end
